theory Spec2Isabelle
  imports Main "HOL-Library.Word" "HOL-Library.Sublist" "HOL-Library.Multiset"
begin

unbundle bit_operations_syntax

section \<open>The virtual file descriptor cache of fd.c\<close>

text \<open>
  A shallow embedding of \<^verbatim>\<open>src/backend/storage/file/fd.c\<close>. The module's static
  variables are the fields of one record; every function of the source is a function
  from a state to a result and a new state.

  \<^item> \<^verbatim>\<open>ereport(ERROR)\<close>, \<^verbatim>\<open>elog(ERROR)\<close>, \<^verbatim>\<open>Insist\<close> and \<^verbatim>\<open>ereport(FATAL)\<close>
    leave the function by a non-local exit: the result is \<open>Inl\<close> of the error and the
    state is the memory as the exit left it.
  \<^item> Every call into the operating system or the DFS client library is answered by the
    environment: the state carries \<open>kernel\<close>, the answer to the n-th call, and \<open>trace\<close>,
    the calls made so far, each with the VFD table as it stood when the call was made.
    Theorems quantify over every \<open>kernel\<close>.
  \<^item> \<^verbatim>\<open>int\<close>, \<^verbatim>\<open>int64\<close> and \<^verbatim>\<open>File\<close> values are HOL integers. Where the source adds to an
    \<^verbatim>\<open>int64\<close> or narrows a value to \<^verbatim>\<open>int\<close> the wrap-around of the compiled code is written
    out (\<open>int64\<close>, \<open>int32\<close>); the counters \<^verbatim>\<open>nfile\<close> and \<^verbatim>\<open>numAllocatedDescs\<close> are bounded
    by the table and the registry. An answer of the environment is a value of the return
    type of the call. Bit sets (\<^verbatim>\<open>fdstate\<close>, \<^verbatim>\<open>fileFlags\<close>) are machine words.
  \<^item> \<^verbatim>\<open>Assert\<close> and \<^verbatim>\<open>DO_DB\<close> are compiled out of a production build and have no
    counterpart here; an array access outside the table is undefined in C, and theorems
    that index the table assume the index is inside it.
\<close>

subsection \<open>Errors, system calls and the environment\<close>

datatype errno_val =
  ENONE | EINTR | EMFILE | ENFILE | ENOENT | ENOSPC | EIO | EINVAL | ENOMEM | EOTHER

datatype err =
  ERROR string
| FATAL string
| CRASH  \<comment> \<open>the process dereferences a wild pointer\<close>

text \<open>
  Modelled from the spec: \<^verbatim>\<open>Insist\<close> and \<^verbatim>\<open>insist_log\<close> are macros of the host's
  headers. A condition that does not hold is an invariant violation that leaves the
  function by a non-local exit with an internal error.
\<close>

definition internal_error :: err where
  "internal_error = ERROR ''Unexpected internal error''"

type_synonym hdl = nat  \<comment> \<open>a pointer handed out by a library; 0 is NULL\<close>

datatype syscall =
  SysDup int
| SysClose int
| SysOpen "string option" "32 word" int
| SysLseek int int int
| SysRead int int
| SysWrite int int
| SysUnlink "string option"
| SysFopen string string
| SysFclose hdl
| SysOpendir string
| SysClosedir hdl
| SysReaddir hdl
| SysMalloc
| Palloc
| AllocSetContextCreate
| HashCreate
| GetCurrentSubTransactionId
| DfsTell "string option" hdl hdl
| DfsCloseFile "string option" hdl hdl
| DfsOpenFile string string "32 word" int
| DfsSync string hdl hdl
| DfsChmod string string int
| DfsSeek "string option" hdl hdl int
| DfsRead "string option" hdl hdl int
| DfsWrite "string option" hdl hdl int
| DfsConnect string string int
| DfsListDirectory hdl string
| DfsFreeFileInfo "string option"
| DfsGetPathInfo "string option" hdl string
| DfsTruncate string hdl string int
| Elog string string

record sysres =
  rv :: int
  rerrno :: errno_val
  rstrs :: "string list"

text \<open>The table entry, \<^verbatim>\<open>struct vfd\<close>. A \<^verbatim>\<open>NULL\<close> pointer is \<open>None\<close> (names) or 0 (handles).\<close>

record vfd =
  fd :: int
  fdstate :: "16 word"
  create_subid :: nat
  nextFree :: nat
  lruMoreRecently :: nat
  lruLessRecently :: nat
  seekPos :: int
  fileName :: "string option"
  fileFlags :: "32 word"
  fileMode :: int
  hFS :: hdl
  hFile :: hdl
  hProtocol :: "string option"

datatype AllocateDescKind = AllocateDescFile | AllocateDescDir | AllocateDescRemoteDir

record AllocateDesc =
  kind :: AllocateDescKind
  desc :: hdl
  desc_create_subid :: nat
  protocol :: string
  filelist :: "string list"
  cur :: nat
  num :: nat
  desc_ret :: string

text \<open>
  The statics of the module. The array \<^verbatim>\<open>allocatedDescs\<close> is kept in two parts:
  \<open>allocatedDescs\<close> holds its live entries, so \<^verbatim>\<open>numAllocatedDescs\<close> is the length of that
  list, and \<open>freeDescs\<close> holds the elements after them, with whatever an earlier use left
  there. \<^verbatim>\<open>SizeVfdCache\<close> is the length of \<open>VfdCache\<close>. \<open>HdfsFsTable\<close> is the table of
  connections, \<open>None\<close> until it is created; the hash table itself is the host's, and only
  the mapping it holds is kept here.
\<close>

record state =
  VfdCache :: "vfd list"
  nfile :: int
  allocatedDescs :: "AllocateDesc list"
  RecentRemoteAllocatedDesc :: int
  freeDescs :: "AllocateDesc list"
  HdfsGlobalContext :: hdl
  HdfsFsTable :: "(string \<rightharpoonup> hdl) option"
  max_safe_fds :: int
  max_files_per_process :: int
  errno :: errno_val
  kernel :: "nat \<Rightarrow> sysres"
  trace :: "(syscall \<times> vfd list) list"

type_synonym 'a res = "(err + 'a) \<times> state"

definition numAllocatedDescs :: "state \<Rightarrow> int" where
  "numAllocatedDescs s = int (length (allocatedDescs s))"

definition SizeVfdCache :: "state \<Rightarrow> nat" where
  "SizeVfdCache s = length (VfdCache s)"

definition NUM_RESERVED_FDS :: int where "NUM_RESERVED_FDS = 10"
definition FD_MINFREE :: int where "FD_MINFREE = 10"
definition VFD_CLOSED :: int where "VFD_CLOSED = -1"
definition FileUnknownPos :: int where "FileUnknownPos = -1"
definition FD_TEMPORARY :: "16 word" where "FD_TEMPORARY = 1"
definition MAX_ALLOCATED_DESCS :: int where "MAX_ALLOCATED_DESCS = 32"

text \<open>The value an \<^verbatim>\<open>int64\<close>, an \<^verbatim>\<open>int\<close>, holds when the compiled code stores \<open>x\<close> in it.\<close>

definition int64 :: "int \<Rightarrow> int" where "int64 x = sint (word_of_int x :: 64 word)"
definition int32 :: "int \<Rightarrow> int" where "int32 x = sint (word_of_int x :: 32 word)"

text \<open>The array \<^verbatim>\<open>allocatedDescs\<close> of a new process: static storage, all zero.\<close>

definition zero_desc :: AllocateDesc where
  "zero_desc =
     \<lparr>kind = AllocateDescFile, desc = 0, desc_create_subid = 0, protocol = [], filelist = [],
      cur = 0, num = 0, desc_ret = []\<rparr>"

definition no_descs :: "AllocateDesc list" where
  "no_descs = replicate 32 zero_desc"

text \<open>
  One call into the environment: the answer is the kernel's answer to call number
  \<open>length (trace s)\<close>, \<^verbatim>\<open>errno\<close> becomes what the answer says (\<open>ENONE\<close>: left alone), and
  the call is appended to the trace with the table it could observe.
\<close>

definition syscall :: "syscall \<Rightarrow> state \<Rightarrow> sysres \<times> state" where
  "syscall c s =
     (let r = kernel s (length (trace s))
      in (r, s\<lparr>errno := (if rerrno r = ENONE then errno s else rerrno r),
               trace := trace s @ [(c, VfdCache s)]\<rparr>))"

text \<open>\<^verbatim>\<open>elog\<close> below \<^verbatim>\<open>ERROR\<close>: the message is written to the log, nothing else changes.\<close>

definition elog :: "string \<Rightarrow> string \<Rightarrow> state \<Rightarrow> state" where
  "elog level msg s = s\<lparr>trace := trace s @ [(Elog level msg, VfdCache s)]\<rparr>"

subsection \<open>The descriptor budget probe\<close>

text \<open>
  \<^verbatim>\<open>count_usable_fds\<close>: dup descriptor 0 until it fails or \<^verbatim>\<open>max_to_probe\<close> dups
  succeeded. \<open>fds\<close> is the array \<^verbatim>\<open>fd[0..used-1]\<close>, so \<^verbatim>\<open>used\<close> is its length.
  \<^verbatim>\<open>insist_log(false, ...)\<close> raises \<open>internal_error\<close>.
\<close>

function count_usable_fds_loop ::
  "int \<Rightarrow> int list \<Rightarrow> int \<Rightarrow> state \<Rightarrow> (int list \<times> int) res" where
  "count_usable_fds_loop max_to_probe fds highestfd s =
     (case syscall (SysDup 0) s of (r, s1) \<Rightarrow>
        let thisfd = rv r in
        if thisfd < 0 then
          (if errno s1 \<noteq> EMFILE \<and> errno s1 \<noteq> ENFILE
           then (Inl internal_error, s1)
           else (Inr (fds, highestfd), s1))
        else
          let fds' = fds @ [thisfd];
              highestfd' = (if highestfd < thisfd then thisfd else highestfd)
          in if int (length fds') \<ge> max_to_probe then (Inr (fds', highestfd'), s1)
             else count_usable_fds_loop max_to_probe fds' highestfd' s1)"
  by pat_completeness auto
termination
  by (relation "measure (\<lambda>(m, fds, h, s). nat (m - int (length fds)))") auto

declare count_usable_fds_loop.simps [simp del]

text \<open>\<^verbatim>\<open>for (j = 0; j < used; j++) close(fd[j]);\<close>\<close>

fun close_all :: "int list \<Rightarrow> state \<Rightarrow> state" where
  "close_all [] s = s"
| "close_all (f # fs) s = close_all fs (snd (syscall (SysClose f) s))"

definition count_usable_fds :: "int \<Rightarrow> state \<Rightarrow> (int \<times> int) res" where
  "count_usable_fds max_to_probe s =
     (case count_usable_fds_loop max_to_probe [] 0 s of
        (Inl e, s1) \<Rightarrow> (Inl e, s1)
      | (Inr (fds, highestfd), s1) \<Rightarrow>
          let used = int (length fds);
              s2 = close_all fds s1
          in (Inr (used, highestfd + 1 - used), s2))"

definition set_max_safe_fds :: "state \<Rightarrow> unit res" where
  "set_max_safe_fds s =
     (case count_usable_fds (max_files_per_process s) s of
        (Inl e, s1) \<Rightarrow> (Inl e, s1)
      | (Inr (usable_fds, already_open), s1) \<Rightarrow>
          let s2 = s1\<lparr>max_safe_fds := min usable_fds (max_files_per_process s1 - already_open)\<rparr>;
              s3 = s2\<lparr>max_safe_fds := max_safe_fds s2 - NUM_RESERVED_FDS\<rparr>
          in if max_safe_fds s3 < FD_MINFREE
             then (Inl (FATAL ''insufficient file handles available to start server process''), s3)
             else (Inr (), elog ''DEBUG2'' ''max_safe_fds'' s3))"

subsection \<open>Strings, flags and paths\<close>

text \<open>
  C strings are character lists without the terminating NUL. \<^verbatim>\<open>strstr\<close> gives the offset
  of the first occurrence, \<^verbatim>\<open>strncmp(a, b, n) == 0\<close> compares the first \<open>n\<close> characters.
  The \<^verbatim>\<open>open(2)\<close> flag bits and \<^verbatim>\<open>SEEK_*\<close> come from the system headers (Linux values),
  \<^verbatim>\<open>MAXPGPATH\<close> and \<^verbatim>\<open>FS_DEFAULT_REPLICA_NUM\<close> from headers of the host.
\<close>

fun strstr :: "string \<Rightarrow> string \<Rightarrow> nat option" where
  "strstr [] needle = (if needle = [] then Some 0 else None)"
| "strstr (c # cs) needle =
     (if prefix needle (c # cs) then Some 0 else map_option Suc (strstr cs needle))"

definition strncmp_eq :: "string \<Rightarrow> string \<Rightarrow> nat \<Rightarrow> bool" where
  "strncmp_eq a b n = (take n a = take n b)"

definition O_WRONLY :: "32 word" where "O_WRONLY = 0x1"
definition O_RDWR :: "32 word" where "O_RDWR = 0x2"
definition O_CREAT :: "32 word" where "O_CREAT = 0x40"
definition O_EXCL :: "32 word" where "O_EXCL = 0x80"
definition O_TRUNC :: "32 word" where "O_TRUNC = 0x200"
definition O_APPEND :: "32 word" where "O_APPEND = 0x400"
definition SEEK_SET :: int where "SEEK_SET = 0"
definition SEEK_CUR :: int where "SEEK_CUR = 1"
definition SEEK_END :: int where "SEEK_END = 2"
definition MAXPGPATH :: nat where "MAXPGPATH = 1024"
definition FS_DEFAULT_REPLICA_NUM :: int where "FS_DEFAULT_REPLICA_NUM = 3"
definition fsys_protocol_sep :: string where "fsys_protocol_sep = ''://''"
definition local_prefix :: string where "local_prefix = ''local://''"

definition IsLocalPath :: "string \<Rightarrow> bool" where
  "IsLocalPath fname =
     (if strncmp_eq fname local_prefix (length local_prefix) then True
      else if strstr fname fsys_protocol_sep = None then True
      else False)"

subsection \<open>The table and the LRU ring\<close>

definition vfdP :: "state \<Rightarrow> nat \<Rightarrow> vfd" where
  "vfdP s file = VfdCache s ! file"

definition set_vfd :: "nat \<Rightarrow> (vfd \<Rightarrow> vfd) \<Rightarrow> state \<Rightarrow> state" where
  "set_vfd file f s = s\<lparr>VfdCache := (VfdCache s)[file := f (VfdCache s ! file)]\<rparr>"

definition FileIsValid :: "state \<Rightarrow> int \<Rightarrow> bool" where
  "FileIsValid s file =
     (file > 0 \<and> file < int (SizeVfdCache s) \<and> fileName (vfdP s (nat file)) \<noteq> None)"

definition FileIsNotOpen :: "state \<Rightarrow> nat \<Rightarrow> bool" where
  "FileIsNotOpen s file =
     (fd (vfdP s file) = VFD_CLOSED \<and> (hFS (vfdP s file) = 0 \<and> hFile (vfdP s file) = 0))"

definition IsLocalFile :: "state \<Rightarrow> nat \<Rightarrow> bool" where
  "IsLocalFile s file =
     (if hFile (vfdP s file) = 0 \<and> hFS (vfdP s file) = 0 then True else False)"

definition Delete :: "nat \<Rightarrow> state \<Rightarrow> state" where
  "Delete file s =
     (let s1 = set_vfd (lruLessRecently (vfdP s file))
                 (\<lambda>v. v\<lparr>lruMoreRecently := lruMoreRecently (vfdP s file)\<rparr>) s;
          s2 = set_vfd (lruMoreRecently (vfdP s1 file))
                 (\<lambda>v. v\<lparr>lruLessRecently := lruLessRecently (vfdP s1 file)\<rparr>) s1
      in s2)"

definition Insert :: "nat \<Rightarrow> state \<Rightarrow> state" where
  "Insert file s =
     (let s1 = set_vfd file (\<lambda>v. v\<lparr>lruMoreRecently := 0\<rparr>) s;
          s2 = set_vfd file (\<lambda>v. v\<lparr>lruLessRecently := lruLessRecently (vfdP s1 0)\<rparr>) s1;
          s3 = set_vfd 0 (\<lambda>v. v\<lparr>lruLessRecently := file\<rparr>) s2;
          s4 = set_vfd (lruLessRecently (vfdP s3 file)) (\<lambda>v. v\<lparr>lruMoreRecently := file\<rparr>) s3
      in s4)"

text \<open>
  \<^verbatim>\<open>LruDelete\<close>: unlink from the ring, save the position, close. \<^verbatim>\<open>Insist\<close> raises
  \<open>internal_error\<close> when the saved position is \<open>-1\<close>.
\<close>

definition LruDelete :: "nat \<Rightarrow> state \<Rightarrow> unit res" where
  "LruDelete file s =
     (let s1 = Delete file s;
          (r, s2) = (if IsLocalFile s1 file
                     then syscall (SysLseek (fd (vfdP s1 file)) 0 SEEK_CUR) s1
                     else syscall (DfsTell (hProtocol (vfdP s1 file)) (hFS (vfdP s1 file))
                                     (hFile (vfdP s1 file))) s1);
          s3 = set_vfd file (\<lambda>v. v\<lparr>seekPos := rv r\<rparr>) s2
      in if \<not> (seekPos (vfdP s3 file) \<noteq> -1) then (Inl internal_error, s3)
         else
           let (c, s4) = (if IsLocalFile s3 file
                          then syscall (SysClose (fd (vfdP s3 file))) s3
                          else syscall (DfsCloseFile (hProtocol (vfdP s3 file)) (hFS (vfdP s3 file))
                                          (hFile (vfdP s3 file))) s3)
           in if rv c \<noteq> 0 then (Inl (ERROR ''could not close file''), s4)
              else
                let s5 = s4\<lparr>nfile := nfile s4 - 1\<rparr>;
                    s6 = set_vfd file (\<lambda>v. v\<lparr>fd := VFD_CLOSED, hFS := 0, hFile := 0\<rparr>) s5;
                    s7 = (if hProtocol (vfdP s6 file) \<noteq> None
                          then set_vfd file (\<lambda>v. v\<lparr>hProtocol := None\<rparr>) s6 else s6)
                in (Inr (), s7))"

definition ReleaseLruFile :: "state \<Rightarrow> bool res" where
  "ReleaseLruFile s =
     (if nfile s > 0 then
        (case LruDelete (lruMoreRecently (vfdP s 0)) s of
           (Inl e, s1) \<Rightarrow> (Inl e, s1)
         | (Inr u, s1) \<Rightarrow> (Inr True, s1))
      else (Inr False, s))"

text \<open>Frame facts: what the primitives leave alone.\<close>

lemma syscall_frame [simp]:
  "kernel (snd (syscall c s)) = kernel s"
  "trace (snd (syscall c s)) = trace s @ [(c, VfdCache s)]"
  "VfdCache (snd (syscall c s)) = VfdCache s"
  "nfile (snd (syscall c s)) = nfile s"
  "allocatedDescs (snd (syscall c s)) = allocatedDescs s"
  "max_safe_fds (snd (syscall c s)) = max_safe_fds s"
  "max_files_per_process (snd (syscall c s)) = max_files_per_process s"
  "fst (syscall c s) = kernel s (length (trace s))"
  by (simp_all add: syscall_def Let_def)

lemma syscall_eqD:
  "syscall c s = (r, s1) \<Longrightarrow> r = kernel s (length (trace s)) \<and> s1 = snd (syscall c s)"
  by (auto simp: syscall_def Let_def)

lemma elog_frame [simp]:
  "kernel (elog l m s) = kernel s"
  "trace (elog l m s) = trace s @ [(Elog l m, VfdCache s)]"
  "VfdCache (elog l m s) = VfdCache s"
  "nfile (elog l m s) = nfile s"
  "allocatedDescs (elog l m s) = allocatedDescs s"
  "max_safe_fds (elog l m s) = max_safe_fds s"
  "errno (elog l m s) = errno s"
  by (simp_all add: elog_def)

lemma set_vfd_frame [simp]:
  "kernel (set_vfd f g s) = kernel s"
  "trace (set_vfd f g s) = trace s"
  "nfile (set_vfd f g s) = nfile s"
  "allocatedDescs (set_vfd f g s) = allocatedDescs s"
  "max_safe_fds (set_vfd f g s) = max_safe_fds s"
  "errno (set_vfd f g s) = errno s"
  "length (VfdCache (set_vfd f g s)) = length (VfdCache s)"
  by (simp_all add: set_vfd_def)

lemma Delete_frame [simp]:
  "kernel (Delete f s) = kernel s"
  "trace (Delete f s) = trace s"
  "nfile (Delete f s) = nfile s"
  "allocatedDescs (Delete f s) = allocatedDescs s"
  "max_safe_fds (Delete f s) = max_safe_fds s"
  "errno (Delete f s) = errno s"
  "length (VfdCache (Delete f s)) = length (VfdCache s)"
  by (simp_all add: Delete_def Let_def)

lemma Insert_frame [simp]:
  "kernel (Insert f s) = kernel s"
  "trace (Insert f s) = trace s"
  "nfile (Insert f s) = nfile s"
  "allocatedDescs (Insert f s) = allocatedDescs s"
  "max_safe_fds (Insert f s) = max_safe_fds s"
  "errno (Insert f s) = errno s"
  "length (VfdCache (Insert f s)) = length (VfdCache s)"
  by (simp_all add: Insert_def Let_def)

lemma LruDelete_budget:
  "LruDelete f s = (r, s') \<Longrightarrow>
     allocatedDescs s' = allocatedDescs s \<and> max_safe_fds s' = max_safe_fds s
     \<and> kernel s' = kernel s \<and> length (VfdCache s') = length (VfdCache s)
     \<and> nfile s' = (if r = Inr () then nfile s - 1 else nfile s)"
  by (auto simp: LruDelete_def Let_def split: if_splits prod.splits dest!: syscall_eqD)

lemma ReleaseLruFile_budget:
  "ReleaseLruFile s = (r, s') \<Longrightarrow>
     allocatedDescs s' = allocatedDescs s \<and> max_safe_fds s' = max_safe_fds s
     \<and> kernel s' = kernel s \<and> length (VfdCache s') = length (VfdCache s)
     \<and> nfile s' = (if r = Inr True then nfile s - 1 else nfile s)
     \<and> (r = Inr True \<longrightarrow> 0 < nfile s) \<and> (r = Inr False \<longrightarrow> nfile s \<le> 0)"
  by (auto simp: ReleaseLruFile_def split: if_splits prod.splits sum.splits dest!: LruDelete_budget)

subsection \<open>Opening a kernel descriptor\<close>

text \<open>
  \<^verbatim>\<open>BasicOpenFile\<close>: \<^verbatim>\<open>open(2)\<close>, and on EMFILE or ENFILE release the least recently
  used descriptor and try again. Every retry has closed one descriptor, so the loop ends.
\<close>

function BasicOpenFile :: "string option \<Rightarrow> 32 word \<Rightarrow> int \<Rightarrow> state \<Rightarrow> int res" where
  "BasicOpenFile fname flags mode s =
     (case syscall (SysOpen fname flags mode) s of (r, s1) \<Rightarrow>
        if rv r \<ge> 0 then (Inr (rv r), s1)
        else if errno s1 = EMFILE \<or> errno s1 = ENFILE then
          let save_errno = errno s1;
              s2 = elog ''LOG'' ''out of file handles: release and retry'' s1;
              s3 = s2\<lparr>errno := ENONE\<rparr>
          in (case ReleaseLruFile s3 of
                (Inl e, s4) \<Rightarrow> (Inl e, s4)
              | (Inr True, s4) \<Rightarrow> BasicOpenFile fname flags mode s4
              | (Inr False, s4) \<Rightarrow> (Inr (-1), s4\<lparr>errno := save_errno\<rparr>))
        else (Inr (-1), s1))"
  by pat_completeness auto
termination
proof (relation "measure (\<lambda>(fname, flags, mode, s). nat (nfile s))", goal_cases)
  case 1
  show ?case by simp
next
  case 2
  then show ?case
    by (auto dest!: ReleaseLruFile_budget [OF sym] syscall_eqD [OF sym])
qed

declare BasicOpenFile.simps [simp del]

text \<open>
  The loop that \<^verbatim>\<open>LruInsert\<close> and \<^verbatim>\<open>LocalPathNameOpenFile\<close> both run before they open:
  \<^verbatim>\<open>while (nfile + numAllocatedDescs >= max_safe_fds) { if (!ReleaseLruFile()) break; }\<close>
\<close>

function release_until_headroom :: "state \<Rightarrow> unit res" where
  "release_until_headroom s =
     (if nfile s + numAllocatedDescs s \<ge> max_safe_fds s then
        (case ReleaseLruFile s of
           (Inl e, s1) \<Rightarrow> (Inl e, s1)
         | (Inr True, s1) \<Rightarrow> release_until_headroom s1
         | (Inr False, s1) \<Rightarrow> (Inr (), s1))
      else (Inr (), s))"
  by pat_completeness auto
termination
proof (relation "measure (\<lambda>s. nat (nfile s))", goal_cases)
  case 1
  show ?case by simp
next
  case 2
  then show ?case
    by (auto dest!: ReleaseLruFile_budget [OF sym])
qed

declare release_until_headroom.simps [simp del]

subsection \<open>Allocating and freeing table entries\<close>

text \<open>A new entry as the growth loop of \<^verbatim>\<open>AllocateVfd\<close> initialises it.\<close>

definition new_vfd :: "nat \<Rightarrow> vfd" where
  "new_vfd i =
     \<lparr>fd = VFD_CLOSED, fdstate = 0, create_subid = 0, nextFree = i + 1,
      lruMoreRecently = 0, lruLessRecently = 0, seekPos = 0, fileName = None,
      fileFlags = 0, fileMode = 0, hFS = 0, hFile = 0, hProtocol = None\<rparr>"

text \<open>\<^verbatim>\<open>realloc\<close> and \<^verbatim>\<open>strdup\<close> ask the environment (\<open>SysMalloc\<close>); 0 is \<^verbatim>\<open>NULL\<close>.\<close>

definition AllocateVfd :: "state \<Rightarrow> nat res" where
  "AllocateVfd s =
     (case (if nextFree (vfdP s 0) = 0 then
              let newCacheSize = (if SizeVfdCache s * 2 < 32 then 32 else SizeVfdCache s * 2);
                  (r, s1) = syscall SysMalloc s
              in if rv r = 0 then (Inl (ERROR ''out of memory''), s1)
                 else
                   let old = SizeVfdCache s1;
                       s2 = s1\<lparr>VfdCache := VfdCache s1 @ map new_vfd [old..<newCacheSize]\<rparr>;
                       s3 = set_vfd (newCacheSize - 1) (\<lambda>v. v\<lparr>nextFree := 0\<rparr>) s2;
                       s4 = set_vfd 0 (\<lambda>v. v\<lparr>nextFree := old\<rparr>) s3
                   in (Inr (), s4)
            else (Inr (), s)) of
        (Inl e, s') \<Rightarrow> (Inl e, s')
      | (Inr u, s') \<Rightarrow>
          let file = nextFree (vfdP s' 0);
              s'' = set_vfd 0 (\<lambda>v. v\<lparr>nextFree := nextFree (vfdP s' file)\<rparr>) s'
          in (Inr file, s''))"

definition FreeVfd :: "nat \<Rightarrow> state \<Rightarrow> state" where
  "FreeVfd file s =
     (let s1 = set_vfd file
                 (\<lambda>v. v\<lparr>fileName := None, fdstate := 0, hFS := 0, hFile := 0, hProtocol := None\<rparr>) s;
          s2 = set_vfd file (\<lambda>v. v\<lparr>nextFree := nextFree (vfdP s1 0)\<rparr>) s1;
          s3 = set_vfd 0 (\<lambda>v. v\<lparr>nextFree := file\<rparr>) s2
      in s3)"

subsection \<open>Opening a file of the distributed file system\<close>

text \<open>
  \<^verbatim>\<open>HdfsGetProtocol\<close> and \<^verbatim>\<open>ConvertToUnixPath\<close> return \<open>None\<close> for \<^verbatim>\<open>false\<close> and
  \<^verbatim>\<open>NULL\<close>. The client library is the environment's.
\<close>

definition HdfsGetProtocol :: "string \<Rightarrow> nat \<Rightarrow> state \<Rightarrow> string option \<times> state" where
  "HdfsGetProtocol fname bufsize s =
     (case strstr fname fsys_protocol_sep of
        None \<Rightarrow>
          (None, (elog ''WARNING'' ''internal error: no filesystem protocol found in path'' s)
                   \<lparr>errno := EINVAL\<rparr>)
      | Some p \<Rightarrow>
          if bufsize < p + 1
          then (None, (elog ''WARNING'' ''internal error: protocol buf is too small'' s)
                        \<lparr>errno := ENOMEM\<rparr>)
          else (Some (take p fname), s))"

text \<open>
  \<^verbatim>\<open>strtol\<close> of the C library, for base 10 and for base 0 (where a leading \<^verbatim>\<open>0x\<close> selects
  base 16 and a leading \<^verbatim>\<open>0\<close> base 8): white space, an optional sign, the longest run of
  digits of the base. The result is the value and whether it was out of the range of
  \<^verbatim>\<open>long\<close>, in which case the value is the nearest bound and \<^verbatim>\<open>errno\<close> is \<^verbatim>\<open>ERANGE\<close>.
  \<^verbatim>\<open>atoi\<close> is \<^verbatim>\<open>(int) strtol(str, NULL, 10)\<close>.
\<close>

definition digit_of :: "char \<Rightarrow> nat option" where
  "digit_of c =
     (let n = (of_char c :: nat)
      in if 48 \<le> n \<and> n \<le> 57 then Some (n - 48)
         else if 97 \<le> n \<and> n \<le> 122 then Some (n - 87)
         else if 65 \<le> n \<and> n \<le> 90 then Some (n - 55)
         else None)"

fun digits_val :: "nat \<Rightarrow> string \<Rightarrow> int \<Rightarrow> int" where
  "digits_val b [] acc = acc"
| "digits_val b (c # cs) acc =
     (case digit_of c of
        None \<Rightarrow> acc
      | Some d \<Rightarrow> if d < b then digits_val b cs (acc * int b + int d) else acc)"

definition isspace :: "char \<Rightarrow> bool" where
  "isspace c = ((of_char c :: nat) = 32 \<or> (9 \<le> (of_char c :: nat) \<and> (of_char c :: nat) \<le> 13))"

definition LONG_MAX :: int where "LONG_MAX = 2 ^ 63 - 1"
definition LONG_MIN :: int where "LONG_MIN = - (2 ^ 63)"

definition strtol :: "string \<Rightarrow> nat \<Rightarrow> int \<times> bool" where
  "strtol str base =
     (let s1 = dropWhile isspace str;
          (neg, s2) = (case s1 of
                         [] \<Rightarrow> (False, s1)
                       | c # cs \<Rightarrow> if c = CHR ''-'' then (True, cs)
                                   else if c = CHR ''+'' then (False, cs) else (False, s1));
          (b, s3) = (if base = 0 then
                       (case s2 of
                          [] \<Rightarrow> (10, s2)
                        | c # cs \<Rightarrow>
                            if c = CHR ''0'' then
                              (case cs of
                                 [] \<Rightarrow> (8, s2)
                               | d # ds \<Rightarrow> if d = CHR ''x'' \<or> d = CHR ''X'' then (16, ds) else (8, s2))
                            else (10, s2))
                     else (base, s2));
          v = digits_val b s3 0;
          sv = (if neg then - v else v)
      in if sv > LONG_MAX then (LONG_MAX, True)
         else if sv < LONG_MIN then (LONG_MIN, True)
         else (sv, False))"

definition atoi :: "string \<Rightarrow> int" where
  "atoi str = int32 (fst (strtol str 10))"

text \<open>The decimal digits \<^verbatim>\<open>%d\<close> prints for a number that is not negative.\<close>

fun dec :: "nat \<Rightarrow> string" where
  "dec n = (if n < 10 then [char_of (48 + n)] else dec (n div 10) @ [char_of (48 + n mod 10)])"

declare dec.simps [simp del]

text \<open>\<^verbatim>\<open>HdfsParseOptions\<close>: the return code and the replica count (a \<^verbatim>\<open>short\<close>).\<close>

definition HdfsParseOptions :: "string \<Rightarrow> int \<Rightarrow> state \<Rightarrow> (int \<times> int) \<times> state" where
  "HdfsParseOptions fname rep s =
     (case strstr fname fsys_protocol_sep of
        None \<Rightarrow>
          ((-1, rep), elog ''WARNING'' ''internal error HdfsParseOptions: no filesystem protocol found''
                        (s\<lparr>errno := EINVAL\<rparr>))
      | Some p \<Rightarrow>
          let rest = drop (p + length fsys_protocol_sep) fname
          in if (case rest of [] \<Rightarrow> True | c # cs \<Rightarrow> c \<noteq> CHR ''{'') then ((0, rep), s)
             else
               let pb = tl rest
               in (case strstr pb ''}'' of
                     None \<Rightarrow>
                       ((-1, rep), elog ''WARNING'' ''internal error HdfsParseOptions: options format error''
                                     (s\<lparr>errno := EINVAL\<rparr>))
                   | Some pe \<Rightarrow>
                       if strncmp_eq pb ''replica='' (length ''replica='')
                       then ((0, sint (word_of_int (atoi (drop (length ''replica='') pb)) :: 16 word)), s)
                       else ((0, rep), s)))"

definition ConvertToUnixPath :: "string \<Rightarrow> nat \<Rightarrow> state \<Rightarrow> string option \<times> state" where
  "ConvertToUnixPath fname len s =
     (case strstr fname fsys_protocol_sep of
        None \<Rightarrow>
          (None, (elog ''WARNING'' ''internal error: no filesystem protocol found in path'' s)
                   \<lparr>errno := EINVAL\<rparr>)
      | Some p \<Rightarrow>
          let rest = drop (p + length fsys_protocol_sep) fname
          in (case strstr rest ''/'' of
                None \<Rightarrow>
                  (None, (elog ''WARNING'' ''internal error: cannot convert path into unix format'' s)
                           \<lparr>errno := EINVAL\<rparr>)
              | Some q \<Rightarrow> (Some (take len (drop q rest)), s)))"

text \<open>
  \<^verbatim>\<open>HdfsGetConnection\<close>: the host and the port are cut out of the path, the table of
  connections is created on first use, and the client is asked for a connection only when
  the table holds none for \<^verbatim>\<open>host:port\<close>. When the path opens an option field with
  \<^verbatim>\<open>{\<close> and never closes it, \<^verbatim>\<open>strstr\<close> returns \<^verbatim>\<open>NULL\<close> and the source copies from the
  address after it: \<open>CRASH\<close>. \<^verbatim>\<open>palloc0\<close> and \<^verbatim>\<open>AllocSetContextCreate\<close> belong to the host
  and never return \<^verbatim>\<open>NULL\<close>; the answer 0 stands for the error the host raises instead.
  A key of the table is a string of at most \<^verbatim>\<open>MAXPGPATH - 1\<close> characters.
\<close>

definition HdfsFsTable_lookup :: "string \<Rightarrow> string \<Rightarrow> int \<Rightarrow> state \<Rightarrow> hdl res" where
  "HdfsFsTable_lookup proto host port s =
     (let location = host @ '':'' @ dec (nat port);
          (m, s1) = syscall Palloc s
      in if rv m = 0 then (Inl (ERROR ''out of memory''), s1)
         else
           (case (case HdfsFsTable s1 of
                    Some t \<Rightarrow> (Inr (Some t), s1)
                  | None \<Rightarrow>
                      (case (if HdfsGlobalContext s1 = 0
                             then (let (c, s2) = syscall AllocSetContextCreate s1
                                   in if rv c = 0 then (Inl (ERROR ''out of memory''), s2)
                                      else (Inr (), s2\<lparr>HdfsGlobalContext := nat (rv c)\<rparr>))
                             else (Inr (), s1)) of
                         (Inl e, s3) \<Rightarrow> (Inl e, s3)
                       | (Inr u, s3) \<Rightarrow>
                           let (h, s4) = syscall HashCreate s3
                           in if rv h = 0
                              then (Inr None, (elog ''WARNING'' ''failed to create hash table.'' s4)
                                                \<lparr>errno := EIO\<rparr>)
                              else (Inr (Some Map.empty), s4\<lparr>HdfsFsTable := Some Map.empty\<rparr>))) of
              (Inl e, s5) \<Rightarrow> (Inl e, s5)
            | (Inr None, s5) \<Rightarrow> (Inr 0, s5)
            | (Inr (Some t), s5) \<Rightarrow>
                let key = take (MAXPGPATH - 1) location
                in (case t key of
                      Some fs \<Rightarrow> (Inr fs, s5)
                    | None \<Rightarrow>
                        let (c, s6) = syscall (DfsConnect proto host port) s5
                        in if nat (rv c) = 0
                           then (Inr 0, elog ''WARNING'' ''fail to connect hdfs'' s6)
                           else (Inr (nat (rv c)),
                                 s6\<lparr>HdfsFsTable := Some (t(key \<mapsto> nat (rv c)))\<rparr>))))"

definition HdfsGetConnection :: "string \<Rightarrow> string \<Rightarrow> state \<Rightarrow> hdl res" where
  "HdfsGetConnection proto path s =
     (case strstr path fsys_protocol_sep of
        None \<Rightarrow> (Inr 0, (elog ''WARNING'' ''no filesystem protocol found'' s)\<lparr>errno := EINVAL\<rparr>)
      | Some i \<Rightarrow>
          let p0 = drop (i + length fsys_protocol_sep) path;
              p = (if take 1 p0 = ''{''
                   then map_option (\<lambda>j. drop (Suc j) (tl p0)) (strstr (tl p0) ''}'')
                   else Some p0);
              (m, s1) = syscall Palloc s
          in if rv m = 0 then (Inl (ERROR ''out of memory''), s1)
             else
               (case p of
                  None \<Rightarrow> (Inl CRASH, s1)
                | Some hostport \<Rightarrow>
                    (case strstr hostport '':'' of
                       None \<Rightarrow>
                         (Inr 0, (elog ''WARNING'' ''cannot find hdfs port in path'' s1)
                                   \<lparr>errno := EINVAL\<rparr>)
                     | Some k \<Rightarrow>
                         let host = take k hostport;
                             (v, erange) = strtol (drop (Suc k) hostport) 0;
                             port = int32 v
                         in if erange \<or> \<not> (0 < port \<and> port < 65536)
                            then (Inr 0, (elog ''WARNING'' ''cannot find hdfs port in path'' s1)
                                           \<lparr>errno := EINVAL\<rparr>)
                            else HdfsFsTable_lookup proto host port (s1\<lparr>errno := ENONE\<rparr>))))"

text \<open>
  \<^verbatim>\<open>HdfsBasicOpenFile\<close>. The three output parameters are passed in with their old
  values and returned with their new ones, also when the function is left by an error:
  the source writes \<^verbatim>\<open>*hProtocol\<close> before it asks for the connection, \<^verbatim>\<open>*fs\<close> when it has
  the answer, and \<^verbatim>\<open>*hFile\<close> whenever it reaches the client's open.
  A write open without append is handed to the client with the replica count of the
  path's options, any other open with replica count 0.
\<close>

definition HdfsBasicOpenFile ::
  "string \<Rightarrow> 32 word \<Rightarrow> int \<Rightarrow> (string option \<times> hdl \<times> hdl) \<Rightarrow> state
     \<Rightarrow> ((err + bool) \<times> string option \<times> hdl \<times> hdl) \<times> state" where
  "HdfsBasicOpenFile fname flags mode outs s =
     (case outs of (p0, fs0, hf0) \<Rightarrow>
      case HdfsGetProtocol fname MAXPGPATH s of
        (None, s1) \<Rightarrow>
          ((Inr False, p0, fs0, hf0), elog ''WARNING'' ''cannot get protocol for path'' s1)
      | (Some proto, s1) \<Rightarrow>
          let ((rc, rep), s2) = HdfsParseOptions fname FS_DEFAULT_REPLICA_NUM s1;
              (m, s3) = syscall SysMalloc s2;
              p1 = (if rv m = 0 then None else Some proto)
          in (case HdfsGetConnection proto fname s3 of
                (Inl e, s4) \<Rightarrow> ((Inl e, p1, fs0, hf0), s4)
              | (Inr fs1, s4) \<Rightarrow>
                  if fs1 = 0 then ((Inr False, p1, fs1, hf0), s4)
                  else
                    (case ConvertToUnixPath fname (MAXPGPATH + 1) s4 of
                       (None, s5) \<Rightarrow> ((Inr False, p1, fs1, hf0), s5)
                     | (Some path, s5) \<Rightarrow>
                         let (opn, s6) =
                               (if \<not> (flags AND O_APPEND \<noteq> 0) \<and> (flags AND O_WRONLY \<noteq> 0)
                                then syscall (DfsOpenFile proto path flags rep) s5
                                else syscall (DfsOpenFile proto path flags 0) s5);
                             hf1 = nat (rv opn)
                         in if hf1 \<noteq> 0 then
                              (if O_CREAT AND flags \<noteq> 0 then
                                 let (sy, s7) = syscall (DfsSync proto fs1 hf1) s6
                                 in if rv sy \<noteq> 0
                                    then ((Inr False, p1, fs1, hf1),
                                          elog ''WARNING'' ''cannot reopen hdfs file'' s7)
                                    else
                                      let (ch, s8) = syscall (DfsChmod proto path mode) s7
                                      in if rv ch \<noteq> 0
                                         then ((Inr False, p1, fs1, hf1),
                                               elog ''WARNING'' ''cannot set file mode'' s8)
                                         else ((Inr True, p1, fs1, hf1), s8)
                               else ((Inr True, p1, fs1, hf1), s6))
                            else ((Inr False, p1, fs1, hf1),
                                  elog ''WARNING'' ''hdfs error, cannot open'' s6))))"

text \<open>
  \<^verbatim>\<open>HdfsPathNameOpenFile\<close>: open first, then allocate the entry. The saved flags lose
  \<^verbatim>\<open>O_CREAT\<close> and always gain \<^verbatim>\<open>O_APPEND\<close>.
\<close>

definition HdfsPathNameOpenFile :: "string \<Rightarrow> 32 word \<Rightarrow> int \<Rightarrow> state \<Rightarrow> int res" where
  "HdfsPathNameOpenFile fname flags mode s =
     (let (m, s1) = syscall SysMalloc s
      in if rv m = 0 then (Inl (ERROR ''out of memory''), s1)
         else
           (case HdfsBasicOpenFile fname flags mode (None, 0, 0) s1 of
              ((Inl e, p, fs, hf), s2) \<Rightarrow> (Inl e, s2)
            | ((Inr False, p, fs, hf), s2) \<Rightarrow>
                (Inr (-1), elog ''WARNING'' ''HdfsPathNameOpenFile: fail'' s2)
            | ((Inr True, p, fs, hf), s2) \<Rightarrow>
                (case AllocateVfd s2 of
                   (Inl e, s3) \<Rightarrow> (Inl e, s3)
                 | (Inr file, s3) \<Rightarrow>
                     (Inr (int file),
                      set_vfd file
                        (\<lambda>v. v\<lparr>fileName := Some fname, hFS := fs, hFile := hf, hProtocol := p,
                                fileFlags := (flags AND NOT O_CREAT) OR O_APPEND,
                                fileMode := mode, seekPos := 0, fdstate := 0\<rparr>) s3))))"

subsection \<open>Reopening an entry and \<^verbatim>\<open>FileAccess\<close>\<close>

text \<open>The name as a C string; an entry in use has one (\<^verbatim>\<open>FileIsValid\<close>).\<close>

definition name_of :: "vfd \<Rightarrow> string" where
  "name_of v = (case fileName v of None \<Rightarrow> [] | Some n \<Rightarrow> n)"

text \<open>
  \<^verbatim>\<open>LruInsert\<close> in three steps. The open step and the seek step return \<open>Some ret\<close> where
  the source executes \<^verbatim>\<open>return ret\<close> and \<open>None\<close> where it goes on.
\<close>

definition LruInsert_open :: "nat \<Rightarrow> state \<Rightarrow> int option res" where
  "LruInsert_open file s =
     (if IsLocalFile s file then
        (case release_until_headroom s of
           (Inl e, s1) \<Rightarrow> (Inl e, s1)
         | (Inr u, s1) \<Rightarrow>
             (case BasicOpenFile (fileName (vfdP s1 file)) (fileFlags (vfdP s1 file))
                     (fileMode (vfdP s1 file)) s1 of
                (Inl e, s2) \<Rightarrow> (Inl e, s2)
              | (Inr newfd, s2) \<Rightarrow>
                  let s3 = set_vfd file (\<lambda>v. v\<lparr>fd := newfd\<rparr>) s2
                  in if fd (vfdP s3 file) < 0 then (Inr (Some (fd (vfdP s3 file))), s3)
                     else (Inr None, s3\<lparr>nfile := nfile s3 + 1\<rparr>)))
      else
        (case HdfsBasicOpenFile (name_of (vfdP s file)) (fileFlags (vfdP s file))
                (fileMode (vfdP s file))
                (hProtocol (vfdP s file), hFS (vfdP s file), hFile (vfdP s file)) s of
           ((q, p, fs, hf), s1) \<Rightarrow>
             let s2 = set_vfd file (\<lambda>v. v\<lparr>hProtocol := p, hFS := fs, hFile := hf\<rparr>) s1
             in (case q of
                   Inl e \<Rightarrow> (Inl e, s2)
                 | Inr ok \<Rightarrow> if \<not> ok then (Inr (Some (-1)), s2) else (Inr None, s2))))"

definition LruInsert_seek :: "nat \<Rightarrow> state \<Rightarrow> int option \<times> state" where
  "LruInsert_seek file s =
     (if seekPos (vfdP s file) \<noteq> 0 then
        (if IsLocalFile s file then
           let (r, s1) = syscall (SysLseek (fd (vfdP s file)) (seekPos (vfdP s file)) SEEK_SET) s
           in if rv r < 0 then (Some (-1), s1) else (None, s1)
         else if fileFlags (vfdP s file) AND O_WRONLY \<noteq> 0 then
           let (r, s1) = syscall (DfsTell (hProtocol (vfdP s file)) (hFS (vfdP s file))
                                    (hFile (vfdP s file))) s;
               len = rv r
           in if fileFlags (vfdP s1 file) AND O_APPEND \<noteq> 0 then
                (if seekPos (vfdP s1 file) \<noteq> len
                 then (Some (-1), elog ''WARNING'' ''hdfs file length is not equal to logic file length'' s1)
                 else (None, s1))
              else (Some (-1), elog ''WARNING'' ''hdfs file should be open as APPEND'' s1)
         else
           let (r, s1) = syscall (DfsSeek (hProtocol (vfdP s file)) (hFS (vfdP s file))
                                    (hFile (vfdP s file)) (seekPos (vfdP s file))) s
           in if rv r \<noteq> 0 then (Some (-1), s1) else (None, s1))
      else (None, s))"

definition LruInsert :: "nat \<Rightarrow> state \<Rightarrow> int res" where
  "LruInsert file s =
     (case (if FileIsNotOpen s file then
              (case LruInsert_open file (elog ''LOG'' ''reopen file'' s) of
                 (Inl e, s1) \<Rightarrow> (Inl e, s1)
               | (Inr (Some ret), s1) \<Rightarrow> (Inr (Some ret), s1)
               | (Inr None, s1) \<Rightarrow> (case LruInsert_seek file s1 of (x, s2) \<Rightarrow> (Inr x, s2)))
            else (Inr None, s)) of
        (Inl e, s') \<Rightarrow> (Inl e, s')
      | (Inr (Some ret), s') \<Rightarrow> (Inr ret, s')
      | (Inr None, s') \<Rightarrow> (Inr 0, if IsLocalFile s' file then Insert file s' else s'))"

definition FileAccess :: "nat \<Rightarrow> state \<Rightarrow> int res" where
  "FileAccess file s =
     (if FileIsNotOpen s file then
        (case LruInsert file s of
           (Inl e, s1) \<Rightarrow> (Inl e, s1)
         | (Inr returnValue, s1) \<Rightarrow>
             if returnValue \<noteq> 0 then (Inr returnValue, s1) else (Inr 0, s1))
      else if lruLessRecently (vfdP s 0) \<noteq> file \<and> IsLocalFile s file
      then (Inr 0, Insert file (Delete file s))
      else (Inr 0, s))"

subsection \<open>Opening by path name\<close>

definition LocalPathNameOpenFile :: "string \<Rightarrow> 32 word \<Rightarrow> int \<Rightarrow> state \<Rightarrow> int res" where
  "LocalPathNameOpenFile fname flags mode s =
     (let (m, s1) = syscall SysMalloc s
      in if rv m = 0 then (Inl (ERROR ''out of memory''), s1)
         else
           (case AllocateVfd s1 of
              (Inl e, s2) \<Rightarrow> (Inl e, s2)
            | (Inr file, s2) \<Rightarrow>
                (case release_until_headroom s2 of
                   (Inl e, s3) \<Rightarrow> (Inl e, s3)
                 | (Inr u, s3) \<Rightarrow>
                     (case BasicOpenFile (Some fname) flags mode s3 of
                        (Inl e, s4) \<Rightarrow> (Inl e, s4)
                      | (Inr newfd, s4) \<Rightarrow>
                          let s5 = set_vfd file (\<lambda>v. v\<lparr>fd := newfd\<rparr>) s4
                          in if fd (vfdP s5 file) < 0 then (Inr (-1), FreeVfd file s5)
                             else
                               let s6 = s5\<lparr>nfile := nfile s5 + 1\<rparr>;
                                   s7 = Insert file s6;
                                   s8 = set_vfd file
                                          (\<lambda>v. v\<lparr>fileName := Some fname,
                                                  fileFlags := flags AND NOT (O_CREAT OR O_TRUNC OR O_EXCL),
                                                  fileMode := mode, seekPos := 0, fdstate := 0\<rparr>) s7
                               in (Inr (int file), s8)))))"

definition PathNameOpenFile :: "string \<Rightarrow> 32 word \<Rightarrow> int \<Rightarrow> state \<Rightarrow> int res" where
  "PathNameOpenFile fname flags mode s =
     (if IsLocalPath fname then LocalPathNameOpenFile fname flags mode s
      else HdfsPathNameOpenFile fname flags mode s)"

subsection \<open>Closing\<close>

text \<open>
  \<^verbatim>\<open>gp_retry_close\<close> repeats \<^verbatim>\<open>close\<close> while it is interrupted; a kernel that interrupts
  for ever keeps it from returning (\<open>None\<close>).
\<close>

partial_function (option) gp_retry_close :: "int \<Rightarrow> state \<Rightarrow> (int \<times> state) option" where
  "gp_retry_close fdn s =
     (case syscall (SysClose fdn) s of (r, s1) \<Rightarrow>
        if rv r = -1 \<and> errno s1 = EINTR then gp_retry_close fdn s1 else Some (rv r, s1))"

definition LocalFileClose :: "nat \<Rightarrow> state \<Rightarrow> unit res option" where
  "LocalFileClose file s =
     (case (if \<not> FileIsNotOpen s file then
              let s1 = Delete file s
              in (case gp_retry_close (fd (vfdP s1 file)) s1 of
                    None \<Rightarrow> None
                  | Some (c, s2) \<Rightarrow>
                      if c \<noteq> 0 then Some (Inl (ERROR ''could not close file''), s2)
                      else Some (Inr (), set_vfd file (\<lambda>v. v\<lparr>fd := VFD_CLOSED\<rparr>)
                                           (s2\<lparr>nfile := nfile s2 - 1\<rparr>)))
            else Some (Inr (), s)) of
        None \<Rightarrow> None
      | Some (Inl e, s') \<Rightarrow> Some (Inl e, s')
      | Some (Inr u, s') \<Rightarrow>
          let s3 = (if fdstate (vfdP s' file) AND FD_TEMPORARY \<noteq> 0 then
                      let s4 = set_vfd file (\<lambda>v. v\<lparr>fdstate := fdstate v AND NOT FD_TEMPORARY\<rparr>) s';
                          (r, s5) = syscall (SysUnlink (fileName (vfdP s4 file))) s4
                      in if rv r \<noteq> 0 then elog ''DEBUG1'' ''failed to unlink'' s5 else s5
                    else s')
          in Some (Inr (), FreeVfd file s3))"

definition HdfsFileClose :: "nat \<Rightarrow> bool \<Rightarrow> state \<Rightarrow> unit res" where
  "HdfsFileClose file canReportError s =
     (let (retval, s1) =
            (if \<not> FileIsNotOpen s file then
               let (r, s0) = syscall (DfsCloseFile (hProtocol (vfdP s file)) (hFS (vfdP s file))
                                        (hFile (vfdP s file))) s;
                   s0' = set_vfd file (\<lambda>v. v\<lparr>fd := VFD_CLOSED, hFS := 0, hFile := 0\<rparr>) s0;
                   s0'' = (if hProtocol (vfdP s0' file) \<noteq> None
                           then set_vfd file (\<lambda>v. v\<lparr>hProtocol := None\<rparr>) s0' else s0')
               in (rv r, s0'')
             else (0, s));
          s2 = FreeVfd file s1
      in if retval = -1 then
           (if canReportError then (Inl (ERROR ''could not close file''), s2)
            else (Inr (), elog ''WARNING'' ''could not close file'' s2))
         else (Inr (), s2))"

definition FileClose :: "nat \<Rightarrow> state \<Rightarrow> unit res option" where
  "FileClose file s =
     (if IsLocalFile s file then LocalFileClose file s
      else Some (HdfsFileClose file True s))"

definition FileUnlink :: "nat \<Rightarrow> state \<Rightarrow> unit res option" where
  "FileUnlink file s =
     FileClose file (set_vfd file (\<lambda>v. v\<lparr>fdstate := fdstate v OR FD_TEMPORARY\<rparr>) s)"

subsection \<open>Reading and writing\<close>

text \<open>
  Only the number of bytes moved is modelled, not the buffer. The retry loops on
  \<^verbatim>\<open>EINTR\<close> do not return (\<open>None\<close>) when the kernel interrupts for ever. The replication
  statistics and the debugging log line of \<^verbatim>\<open>LocalFileWrite\<close> and \<^verbatim>\<open>FileReadIntr\<close> belong
  to the host and are left out. \<^verbatim>\<open>read\<close> and \<^verbatim>\<open>write\<close> return a \<^verbatim>\<open>ssize_t\<close> that the source
  stores in an \<^verbatim>\<open>int\<close>, as it does with the answers of the DFS client; the position is
  an \<^verbatim>\<open>int64\<close> and \<^verbatim>\<open>+=\<close> on it wraps.
\<close>

partial_function (option) read_retry :: "nat \<Rightarrow> int \<Rightarrow> bool \<Rightarrow> state \<Rightarrow> (int \<times> state) option" where
  "read_retry file amount fRetryIntr s =
     (case syscall (SysRead (fd (vfdP s file)) amount) s of (r, s1) \<Rightarrow>
        if int32 (rv r) \<ge> 0
        then Some (int32 (rv r),
                   set_vfd file (\<lambda>v. v\<lparr>seekPos := int64 (seekPos v + int32 (rv r))\<rparr>) s1)
        else if errno s1 = EINTR \<and> fRetryIntr then read_retry file amount fRetryIntr s1
        else Some (int32 (rv r), set_vfd file (\<lambda>v. v\<lparr>seekPos := FileUnknownPos\<rparr>) s1))"

definition FileReadIntr :: "nat \<Rightarrow> int \<Rightarrow> bool \<Rightarrow> state \<Rightarrow> int res option" where
  "FileReadIntr file amount fRetryIntr s =
     (case FileAccess file s of
        (Inl e, s1) \<Rightarrow> Some (Inl e, s1)
      | (Inr returnCode, s1) \<Rightarrow>
          if returnCode < 0 then Some (Inr returnCode, s1)
          else (case read_retry file amount fRetryIntr s1 of
                  None \<Rightarrow> None
                | Some (rc, s2) \<Rightarrow> Some (Inr rc, s2)))"

definition LocalFileRead :: "nat \<Rightarrow> int \<Rightarrow> state \<Rightarrow> int res option" where
  "LocalFileRead file amount s = FileReadIntr file amount True s"

partial_function (option) write_retry :: "nat \<Rightarrow> int \<Rightarrow> state \<Rightarrow> (int \<times> state) option" where
  "write_retry file amount s =
     (case syscall (SysWrite (fd (vfdP s file)) amount) (s\<lparr>errno := ENONE\<rparr>) of (r, s1) \<Rightarrow>
        let s2 = (if int32 (rv r) \<noteq> amount \<and> errno s1 = ENONE then s1\<lparr>errno := ENOSPC\<rparr>
                  else s1)
        in if int32 (rv r) \<ge> 0
           then Some (int32 (rv r),
                      set_vfd file (\<lambda>v. v\<lparr>seekPos := int64 (seekPos v + int32 (rv r))\<rparr>) s2)
           else if errno s2 = EINTR then write_retry file amount s2
           else Some (int32 (rv r), set_vfd file (\<lambda>v. v\<lparr>seekPos := FileUnknownPos\<rparr>) s2))"

definition LocalFileWrite :: "nat \<Rightarrow> int \<Rightarrow> state \<Rightarrow> int res option" where
  "LocalFileWrite file amount s =
     (case FileAccess file s of
        (Inl e, s1) \<Rightarrow> Some (Inl e, s1)
      | (Inr returnCode, s1) \<Rightarrow>
          if returnCode < 0 then Some (Inr returnCode, s1)
          else (case write_retry file amount s1 of
                  None \<Rightarrow> None
                | Some (rc, s2) \<Rightarrow> Some (Inr rc, s2)))"

definition HdfsFileRead :: "nat \<Rightarrow> int \<Rightarrow> state \<Rightarrow> int res" where
  "HdfsFileRead file amount s =
     (case FileAccess file s of
        (Inl e, s1) \<Rightarrow> (Inl e, s1)
      | (Inr returnCode, s1) \<Rightarrow>
          if returnCode < 0
          then (Inr returnCode, elog ''WARNING'' ''cannot reopen file for read'' s1)
          else
            let (r, s2) = syscall (DfsRead (hProtocol (vfdP s1 file)) (hFS (vfdP s1 file))
                                     (hFile (vfdP s1 file)) amount) s1;
                returnCode' = int32 (rv r)
            in if returnCode' \<ge> 0
               then (Inr returnCode',
                     set_vfd file (\<lambda>v. v\<lparr>seekPos := int64 (seekPos v + returnCode')\<rparr>) s2)
               else (Inr returnCode', elog ''WARNING'' ''cannot read from file''
                                        (set_vfd file (\<lambda>v. v\<lparr>seekPos := FileUnknownPos\<rparr>) s2)))"

definition HdfsFileWrite :: "nat \<Rightarrow> int \<Rightarrow> state \<Rightarrow> int res" where
  "HdfsFileWrite file amount s =
     (case FileAccess file s of
        (Inl e, s1) \<Rightarrow> (Inl e, s1)
      | (Inr returnCode, s1) \<Rightarrow>
          if returnCode < 0
          then (Inr returnCode, elog ''WARNING'' ''cannot reopen file for write'' s1)
          else
            let (r, s2) = syscall (DfsWrite (hProtocol (vfdP s1 file)) (hFS (vfdP s1 file))
                                     (hFile (vfdP s1 file)) amount) s1;
                returnCode' = int32 (rv r)
            in if returnCode' \<ge> 0
               then (Inr returnCode',
                     set_vfd file (\<lambda>v. v\<lparr>seekPos := int64 (seekPos v + returnCode')\<rparr>) s2)
               else (Inr returnCode', set_vfd file (\<lambda>v. v\<lparr>seekPos := FileUnknownPos\<rparr>)
                                        (elog ''WARNING'' ''cannot write into file'' s2)))"

definition FileRead :: "nat \<Rightarrow> int \<Rightarrow> state \<Rightarrow> int res option" where
  "FileRead file amount s =
     (if IsLocalFile s file then LocalFileRead file amount s
      else Some (HdfsFileRead file amount s))"

definition FileWrite :: "nat \<Rightarrow> int \<Rightarrow> state \<Rightarrow> int res option" where
  "FileWrite file amount s =
     (if IsLocalFile s file then LocalFileWrite file amount s
      else Some (HdfsFileWrite file amount s))"

subsection \<open>Seeking\<close>

definition LocalFileSeek :: "nat \<Rightarrow> int \<Rightarrow> int \<Rightarrow> state \<Rightarrow> int res" where
  "LocalFileSeek file offset whence s =
     (if FileIsNotOpen s file then
        (if whence = SEEK_SET then
           let s1 = set_vfd file (\<lambda>v. v\<lparr>seekPos := offset\<rparr>) s
           in (Inr (seekPos (vfdP s1 file)), s1)
         else if whence = SEEK_CUR then
           let s1 = set_vfd file (\<lambda>v. v\<lparr>seekPos := int64 (seekPos v + offset)\<rparr>) s
           in (Inr (seekPos (vfdP s1 file)), s1)
         else if whence = SEEK_END then
           (case FileAccess file s of
              (Inl e, s1) \<Rightarrow> (Inl e, s1)
            | (Inr returnCode, s1) \<Rightarrow>
                if returnCode < 0 then (Inr returnCode, s1)
                else
                  let (r, s2) = syscall (SysLseek (fd (vfdP s1 file)) offset whence) s1;
                      s3 = set_vfd file (\<lambda>v. v\<lparr>seekPos := rv r\<rparr>) s2
                  in (Inr (seekPos (vfdP s3 file)), s3))
         else (Inr (seekPos (vfdP s file)), s))
      else
        (if whence = SEEK_SET then
           (if seekPos (vfdP s file) \<noteq> offset then
              let (r, s2) = syscall (SysLseek (fd (vfdP s file)) offset whence) s;
                  s3 = set_vfd file (\<lambda>v. v\<lparr>seekPos := rv r\<rparr>) s2
              in (Inr (seekPos (vfdP s3 file)), s3)
            else (Inr (seekPos (vfdP s file)), s))
         else if whence = SEEK_CUR then
           (if offset \<noteq> 0 \<or> seekPos (vfdP s file) = FileUnknownPos then
              let (r, s2) = syscall (SysLseek (fd (vfdP s file)) offset whence) s;
                  s3 = set_vfd file (\<lambda>v. v\<lparr>seekPos := rv r\<rparr>) s2
              in (Inr (seekPos (vfdP s3 file)), s3)
            else (Inr (seekPos (vfdP s file)), s))
         else if whence = SEEK_END then
           let (r, s2) = syscall (SysLseek (fd (vfdP s file)) offset whence) s;
               s3 = set_vfd file (\<lambda>v. v\<lparr>seekPos := rv r\<rparr>) s2
           in (Inr (seekPos (vfdP s3 file)), s3)
         else (Inr (seekPos (vfdP s file)), s)))"

text \<open>
  \<^verbatim>\<open>HdfsFileSeek\<close>. The size of the file is the answer of \<open>DfsGetPathInfo\<close> (negative:
  \<^verbatim>\<open>NULL\<close>); a path that \<^verbatim>\<open>ConvertToUnixPath\<close> could not convert is passed on as it is
  found in the buffer, here the empty string.
\<close>

definition HdfsFileSeek :: "nat \<Rightarrow> int \<Rightarrow> int \<Rightarrow> state \<Rightarrow> int res" where
  "HdfsFileSeek file offset whence s =
     (let desiredPos0 = (if seekPos (vfdP s file) \<noteq> FileUnknownPos then seekPos (vfdP s file) else 0)
      in case (if whence = SEEK_SET then (Inr offset, s)
               else if whence = SEEK_CUR then (Inr (int64 (desiredPos0 + offset)), s)
               else if whence = SEEK_END then
                 let (p, s1) = ConvertToUnixPath (name_of (vfdP s file)) (MAXPGPATH + 1) s;
                     (r, s2) = syscall (DfsGetPathInfo (hProtocol (vfdP s1 file)) (hFS (vfdP s1 file))
                                          (case p of None \<Rightarrow> [] | Some path \<Rightarrow> path)) s1
                 in if rv r < 0 then (Inl (ERROR ''hdfsGetPathInfo: failed''), s2)
                    else (Inr (rv r), snd (syscall (DfsFreeFileInfo (hProtocol (vfdP s2 file))) s2))
               else (Inr desiredPos0, s)) of
           (Inl e, s3) \<Rightarrow> (Inl e, s3)
         | (Inr desiredPos, s3) \<Rightarrow>
             (case FileAccess file s3 of
                (Inl e, s4) \<Rightarrow> (Inl e, s4)
              | (Inr returnCode, s4) \<Rightarrow>
                  if returnCode < 0
                  then (Inr returnCode, elog ''WARNING'' ''cannot open file for seek'' s4)
                  else
                    let (k, s5) = syscall (DfsSeek (hProtocol (vfdP s4 file)) (hFS (vfdP s4 file))
                                             (hFile (vfdP s4 file)) desiredPos) s4;
                        s6 = (if rv k \<noteq> 0
                              then set_vfd file (\<lambda>v. v\<lparr>seekPos := -1\<rparr>)
                                     (elog ''WARNING'' ''cannot seek file'' s5)
                              else set_vfd file (\<lambda>v. v\<lparr>seekPos := desiredPos\<rparr>) s5)
                    in (Inr (seekPos (vfdP s6 file)), s6)))"

definition FileSeek :: "nat \<Rightarrow> int \<Rightarrow> int \<Rightarrow> state \<Rightarrow> int res" where
  "FileSeek file offset whence s =
     (if IsLocalFile s file then LocalFileSeek file offset whence s
      else HdfsFileSeek file offset whence s)"

subsection \<open>The registry of allocated descriptors and the sweep of temporary files\<close>

text \<open>
  The registry of \<^verbatim>\<open>FILE*\<close> and \<^verbatim>\<open>DIR*\<close> handles. A pointer is a number, \<^verbatim>\<open>NULL\<close> is 0.
  A new entry is written into the first element after the live ones, which then becomes
  live; the fields the source does not assign keep that element's old content. The tests
  against \<^verbatim>\<open>MAX_ALLOCATED_DESCS\<close> see to it that there is such an element.
\<close>

definition new_desc :: "AllocateDescKind \<Rightarrow> hdl \<Rightarrow> nat \<Rightarrow> AllocateDesc \<Rightarrow> AllocateDesc" where
  "new_desc k d sub old = old\<lparr>kind := k, desc := d, desc_create_subid := sub\<rparr>"

definition push_desc :: "(AllocateDesc \<Rightarrow> AllocateDesc) \<Rightarrow> state \<Rightarrow> state" where
  "push_desc f s =
     s\<lparr>allocatedDescs := allocatedDescs s @ [f (hd (freeDescs s))], freeDescs := tl (freeDescs s)\<rparr>"

function AllocateFile_open :: "string \<Rightarrow> string \<Rightarrow> state \<Rightarrow> hdl res" where
  "AllocateFile_open fname mode s =
     (case syscall (SysFopen fname mode) s of (r, s1) \<Rightarrow>
        if nat (rv r) \<noteq> 0 then
          (let (sub, s2) = syscall GetCurrentSubTransactionId s1
           in (Inr (nat (rv r)),
               push_desc (new_desc AllocateDescFile (nat (rv r)) (nat (rv sub))) s2))
        else if errno s1 = EMFILE \<or> errno s1 = ENFILE then
          let save_errno = errno s1;
              s2 = elog ''LOG'' ''out of file handles: release and retry'' s1;
              s3 = s2\<lparr>errno := ENONE\<rparr>
          in (case ReleaseLruFile s3 of
                (Inl e, s4) \<Rightarrow> (Inl e, s4)
              | (Inr True, s4) \<Rightarrow> AllocateFile_open fname mode s4
              | (Inr False, s4) \<Rightarrow> (Inr 0, s4\<lparr>errno := save_errno\<rparr>))
        else (Inr 0, s1))"
  by pat_completeness auto
termination
proof (relation "measure (\<lambda>(fname, mode, s). nat (nfile s))", goal_cases)
  case 1
  show ?case by simp
next
  case 2
  then show ?case
    by (auto dest!: ReleaseLruFile_budget [OF sym] syscall_eqD [OF sym])
qed

declare AllocateFile_open.simps [simp del]

definition AllocateFile :: "string \<Rightarrow> string \<Rightarrow> state \<Rightarrow> hdl res" where
  "AllocateFile fname mode s =
     (if numAllocatedDescs s \<ge> MAX_ALLOCATED_DESCS \<or> numAllocatedDescs s \<ge> max_safe_fds s - 1
      then (Inl (ERROR ''could not allocate file: out of file handles''), s)
      else AllocateFile_open fname mode s)"

text \<open>
  \<^verbatim>\<open>FreeDesc\<close>: close by kind, then copy the last live entry into the freed element; the
  element it was copied from is no longer live and keeps its content.
  \<^verbatim>\<open>free\<close> is not a call of the model.
\<close>

definition FreeDesc :: "nat \<Rightarrow> state \<Rightarrow> int \<times> state" where
  "FreeDesc i s =
     (let d = allocatedDescs s ! i;
          (result, s1) =
             (case kind d of
                AllocateDescFile \<Rightarrow> (let (r, s1) = syscall (SysFclose (desc d)) s in (rv r, s1))
              | AllocateDescDir \<Rightarrow> (let (r, s1) = syscall (SysClosedir (desc d)) s in (rv r, s1))
              | AllocateDescRemoteDir \<Rightarrow>
                  (let (r, s1) = syscall (DfsFreeFileInfo (Some (protocol d))) s in (1, s1)))
      in (result,
          s1\<lparr>allocatedDescs := butlast ((allocatedDescs s1)[i := last (allocatedDescs s1)]),
             freeDescs := last (allocatedDescs s1) # freeDescs s1\<rparr>))"

text \<open>
  The scans of \<^verbatim>\<open>FreeFile\<close> and \<^verbatim>\<open>FreeDir\<close>, \<^verbatim>\<open>for (i = numAllocatedDescs; --i >= 0;)\<close>:
  the index of the last entry that matches.
\<close>

fun scan_down :: "(AllocateDesc \<Rightarrow> bool) \<Rightarrow> AllocateDesc list \<Rightarrow> nat \<Rightarrow> nat option" where
  "scan_down p xs 0 = None"
| "scan_down p xs (Suc i) = (if p (xs ! i) then Some i else scan_down p xs i)"

definition FreeFile :: "hdl \<Rightarrow> state \<Rightarrow> int \<times> state" where
  "FreeFile f s =
     (case scan_down (\<lambda>d. kind d = AllocateDescFile \<and> desc d = f) (allocatedDescs s)
             (length (allocatedDescs s)) of
        Some i \<Rightarrow> FreeDesc i s
      | None \<Rightarrow>
          (let s1 = elog ''LOG''
                      ''file to be closed was not opened through the virtual file descriptor system'' s;
               (r, s2) = syscall (SysFclose f) s1
           in (rv r, s2)))"

definition FreeDir :: "hdl \<Rightarrow> state \<Rightarrow> int \<times> state" where
  "FreeDir dir s =
     (case scan_down (\<lambda>d. kind d \<noteq> AllocateDescFile \<and> desc d = dir) (allocatedDescs s)
             (length (allocatedDescs s)) of
        Some i \<Rightarrow> FreeDesc i s
      | None \<Rightarrow>
          (let s1 = elog ''LOG''
                      ''directory to be closed was not opened through the virtual file descriptor system'' s;
               (r, s2) = syscall (SysClosedir dir) s1
           in (rv r, s2)))"

text \<open>
  \<^verbatim>\<open>AllocateDir\<close>. A remote directory is listed at once by the client; the entry keeps
  the list, whose length is \<^verbatim>\<open>num\<close>. The local branch is the same retry loop as
  \<^verbatim>\<open>AllocateFile\<close>.
\<close>

function AllocateDir_open :: "string \<Rightarrow> state \<Rightarrow> hdl res" where
  "AllocateDir_open dirname s =
     (case syscall (SysOpendir dirname) s of (r, s1) \<Rightarrow>
        if nat (rv r) \<noteq> 0 then
          (let (sub, s2) = syscall GetCurrentSubTransactionId s1
           in (Inr (nat (rv r)),
               push_desc (new_desc AllocateDescDir (nat (rv r)) (nat (rv sub))) s2))
        else if errno s1 = EMFILE \<or> errno s1 = ENFILE then
          let save_errno = errno s1;
              s2 = elog ''LOG'' ''out of file handles: release and retry'' s1;
              s3 = s2\<lparr>errno := ENONE\<rparr>
          in (case ReleaseLruFile s3 of
                (Inl e, s4) \<Rightarrow> (Inl e, s4)
              | (Inr True, s4) \<Rightarrow> AllocateDir_open dirname s4
              | (Inr False, s4) \<Rightarrow> (Inr 0, s4\<lparr>errno := save_errno\<rparr>))
        else (Inr 0, s1))"
  by pat_completeness auto
termination
proof (relation "measure (\<lambda>(dirname, s). nat (nfile s))", goal_cases)
  case 1
  show ?case by simp
next
  case 2
  then show ?case
    by (auto dest!: ReleaseLruFile_budget [OF sym] syscall_eqD [OF sym])
qed

declare AllocateDir_open.simps [simp del]

definition AllocateDir_remote :: "string \<Rightarrow> state \<Rightarrow> hdl res" where
  "AllocateDir_remote dirname s =
     (case HdfsGetProtocol dirname MAXPGPATH s of
        (None, s1) \<Rightarrow> (Inr 0, s1)
      | (Some proto, s1) \<Rightarrow>
          (case ConvertToUnixPath dirname MAXPGPATH s1 of
             (None, s2) \<Rightarrow> (Inr 0, s2)
           | (Some unixpath, s2) \<Rightarrow>
               (case HdfsGetConnection proto dirname s2 of
                  (Inl e, s3) \<Rightarrow> (Inl e, s3)
                | (Inr fs, s3) \<Rightarrow>
                    if fs = 0 then (Inr 0, s3)
                    else
                      let (l, s4) = syscall (DfsListDirectory fs unixpath) s3
                      in if rv l = 0 then (Inr 0, s4)
                         else
                           let (m, s5) = syscall SysMalloc s4
                           in if nat (rv m) = 0 then (Inl (ERROR ''out of memory''), s5)
                              else
                                let (sub, s6) = syscall GetCurrentSubTransactionId s5
                                in (Inr (nat (rv m)),
                                    push_desc
                                      (\<lambda>old. old\<lparr>kind := AllocateDescRemoteDir,
                                                  protocol := take MAXPGPATH proto,
                                                  desc := nat (rv m),
                                                  desc_create_subid := nat (rv sub),
                                                  filelist := rstrs l, num := length (rstrs l),
                                                  cur := 0\<rparr>) s6))))"

definition AllocateDir :: "string \<Rightarrow> state \<Rightarrow> hdl res" where
  "AllocateDir dirname s =
     (if numAllocatedDescs s \<ge> MAX_ALLOCATED_DESCS \<or> numAllocatedDescs s \<ge> max_safe_fds s - 1
      then (Inl (ERROR ''could not allocate directory: out of file handles''), s)
      else if \<not> IsLocalPath dirname then AllocateDir_remote dirname s
      else AllocateDir_open dirname s)"

text \<open>
  \<^verbatim>\<open>ReadDir\<close> returns the entry's name, \<open>None\<close> at the end of the directory. The name of
  a local entry is the first string of the answer to \<^verbatim>\<open>readdir\<close>; \<^verbatim>\<open>d_name\<close> holds 256
  bytes. In the remote branch the scan \<^verbatim>\<open>for (cache_id = 0; ...)\<close> stops at the first
  remote entry for the pointer; when there is none the source goes on with the array
  element after the live ones, as an earlier use left it (its list of names may have been
  freed since: the model reads it as it was). With all 32 elements live that element is
  outside the array: \<open>CRASH\<close>.
\<close>

definition d_name :: "sysres \<Rightarrow> string" where
  "d_name r = (case rstrs r of [] \<Rightarrow> [] | n # ns \<Rightarrow> n)"

definition D_NAME_SIZE :: nat where "D_NAME_SIZE = 256"

fun scan_up :: "(AllocateDesc \<Rightarrow> bool) \<Rightarrow> AllocateDesc list \<Rightarrow> nat \<Rightarrow> nat" where
  "scan_up p [] i = i"
| "scan_up p (x # xs) i = (if p x then i else scan_up p xs (Suc i))"

definition base_name :: "string \<Rightarrow> string" where
  "base_name fullname = rev (takeWhile (\<lambda>c. c \<noteq> CHR ''/'') (rev fullname))"

text \<open>Element \<open>j\<close> of the array \<^verbatim>\<open>allocatedDescs\<close>, live or not.\<close>

definition descP :: "state \<Rightarrow> nat \<Rightarrow> AllocateDesc" where
  "descP s j = (allocatedDescs s @ freeDescs s) ! j"

definition set_desc :: "nat \<Rightarrow> (AllocateDesc \<Rightarrow> AllocateDesc) \<Rightarrow> state \<Rightarrow> state" where
  "set_desc j f s =
     (if j < length (allocatedDescs s)
      then s\<lparr>allocatedDescs := (allocatedDescs s)[j := f (allocatedDescs s ! j)]\<rparr>
      else s\<lparr>freeDescs := (freeDescs s)[j - length (allocatedDescs s) :=
                                f (freeDescs s ! (j - length (allocatedDescs s)))]\<rparr>)"

definition ReadDir_remote :: "hdl \<Rightarrow> state \<Rightarrow> string option res" where
  "ReadDir_remote dir s =
     (let c0 = RecentRemoteAllocatedDesc s;
          miss = (c0 < 0 \<or> c0 \<ge> numAllocatedDescs s
                  \<or> kind (allocatedDescs s ! nat c0) \<noteq> AllocateDescRemoteDir
                  \<or> desc (allocatedDescs s ! nat c0) \<noteq> dir);
          cache_id = (if miss
                      then scan_up (\<lambda>d. kind d = AllocateDescRemoteDir \<and> desc d = dir)
                             (allocatedDescs s) 0
                      else nat c0);
          s1 = (if miss then s\<lparr>RecentRemoteAllocatedDesc := int cache_id\<rparr> else s)
      in if cache_id \<ge> length (allocatedDescs s1) + length (freeDescs s1) then (Inl CRASH, s1)
         else
           let d = descP s1 cache_id
           in if cur d \<ge> num d then (Inr None, s1)
              else
                let fullname = filelist d ! cur d;
                    s2 = set_desc cache_id (\<lambda>d. d\<lparr>cur := cur d + 1\<rparr>) s1;
                    filename = base_name fullname
                in if D_NAME_SIZE < length filename + 1
                   then (Inl (ERROR ''file name is too long''), s2)
                   else (Inr (Some filename), set_desc cache_id (\<lambda>d. d\<lparr>desc_ret := filename\<rparr>) s2))"

definition ReadDir :: "hdl \<Rightarrow> string \<Rightarrow> state \<Rightarrow> string option res" where
  "ReadDir dir dirname s =
     (if dir = 0 then (Inl (ERROR ''could not open directory''), s)
      else if \<not> IsLocalPath dirname then ReadDir_remote dir s
      else
        let s1 = s\<lparr>errno := ENONE\<rparr>;
            (r, s2) = syscall (SysReaddir dir) s1
        in if rv r \<noteq> 0 then (Inr (Some (d_name r)), s2)
           else if errno s2 \<noteq> ENONE then (Inl (ERROR ''could not read directory''), s2)
           else (Inr None, s2))"

text \<open>
  The sweep of the temporary directories. \<^verbatim>\<open>PG_TEMP_FILES_DIR\<close> and \<^verbatim>\<open>PG_TEMP_FILE_PREFIX\<close>
  come from \<^verbatim>\<open>fd.h\<close>; the theorems below do not depend on their values.
  \<^verbatim>\<open>snprintf(buf, n, ...)\<close> keeps at most \<open>n - 1\<close> characters. The directory loops end when
  \<^verbatim>\<open>ReadDir\<close> returns \<^verbatim>\<open>NULL\<close>, which the environment decides: a run that never ends is
  \<open>None\<close>.
\<close>

definition PG_TEMP_FILES_DIR :: string where "PG_TEMP_FILES_DIR = ''pgsql_tmp''"
definition PG_TEMP_FILE_PREFIX :: string where "PG_TEMP_FILE_PREFIX = ''pgsql_tmp''"

definition snprintf :: "nat \<Rightarrow> string \<Rightarrow> string" where
  "snprintf n str = take (n - 1) str"

definition HasTempFilePrefix :: "string \<Rightarrow> bool" where
  "HasTempFilePrefix fname = strncmp_eq fname PG_TEMP_FILE_PREFIX (length PG_TEMP_FILE_PREFIX)"

partial_function (option) RemovePgTempFilesInDir_loop ::
  "hdl \<Rightarrow> string \<Rightarrow> state \<Rightarrow> unit res option" where
  "RemovePgTempFilesInDir_loop temp_dir tmpdirname s =
     (case ReadDir temp_dir tmpdirname s of
        (Inl e, s1) \<Rightarrow> Some (Inl e, s1)
      | (Inr None, s1) \<Rightarrow> Some (Inr (), s1)
      | (Inr (Some de), s1) \<Rightarrow>
          if de = ''.'' \<or> de = ''..'' then RemovePgTempFilesInDir_loop temp_dir tmpdirname s1
          else
            let rm_path = snprintf MAXPGPATH (tmpdirname @ ''/'' @ de)
            in if HasTempFilePrefix de
               then RemovePgTempFilesInDir_loop temp_dir tmpdirname
                      (snd (syscall (SysUnlink (Some rm_path)) s1))
               else RemovePgTempFilesInDir_loop temp_dir tmpdirname
                      (elog ''LOG'' (''unexpected file found in temporary-files directory: '' @ rm_path) s1))"

definition RemovePgTempFilesInDir :: "string \<Rightarrow> state \<Rightarrow> unit res option" where
  "RemovePgTempFilesInDir tmpdirname s =
     (case AllocateDir tmpdirname s of
        (Inl e, s1) \<Rightarrow> Some (Inl e, s1)
      | (Inr temp_dir, s1) \<Rightarrow>
          if temp_dir = 0
          then Some (Inr (),
                     if errno s1 \<noteq> ENOENT
                     then elog ''LOG'' (''could not open temporary-files directory: '' @ tmpdirname) s1
                     else s1)
          else
            (case RemovePgTempFilesInDir_loop temp_dir tmpdirname s1 of
               None \<Rightarrow> None
             | Some (Inl e, s2) \<Rightarrow> Some (Inl e, s2)
             | Some (Inr u, s2) \<Rightarrow> Some (Inr (), snd (FreeDir temp_dir s2))))"

partial_function (option) RemovePgTempFiles_loop :: "hdl \<Rightarrow> state \<Rightarrow> unit res option" where
  "RemovePgTempFiles_loop db_dir s =
     (case ReadDir db_dir ''base'' s of
        (Inl e, s1) \<Rightarrow> Some (Inl e, s1)
      | (Inr None, s1) \<Rightarrow> Some (Inr (), s1)
      | (Inr (Some de), s1) \<Rightarrow>
          if de = ''.'' \<or> de = ''..'' then RemovePgTempFiles_loop db_dir s1
          else
            (case RemovePgTempFilesInDir
                    (snprintf MAXPGPATH (''base/'' @ de @ ''/'' @ PG_TEMP_FILES_DIR)) s1 of
               None \<Rightarrow> None
             | Some (Inl e, s2) \<Rightarrow> Some (Inl e, s2)
             | Some (Inr u, s2) \<Rightarrow> RemovePgTempFiles_loop db_dir s2))"

definition RemovePgTempFiles :: "state \<Rightarrow> unit res option" where
  "RemovePgTempFiles s =
     (case AllocateDir ''base'' s of
        (Inl e, s1) \<Rightarrow> Some (Inl e, s1)
      | (Inr db_dir, s1) \<Rightarrow>
          (case RemovePgTempFiles_loop db_dir s1 of
             None \<Rightarrow> None
           | Some (Inl e, s2) \<Rightarrow> Some (Inl e, s2)
           | Some (Inr u, s2) \<Rightarrow> Some (Inr (), snd (FreeDir db_dir s2))))"


subsection \<open>The end of a subtransaction\<close>






subsection \<open>Starting up\<close>

text \<open>
  The process before \<^verbatim>\<open>InitFileAccess\<close>: the statics of the file at their initial values
  (\<^verbatim>\<open>max_safe_fds = 32\<close>, \<^verbatim>\<open>max_files_per_process = 1000\<close>), over a kernel \<open>k\<close>.
\<close>

definition boot :: "(nat \<Rightarrow> sysres) \<Rightarrow> state" where
  "boot k =
     \<lparr>VfdCache = [], nfile = 0, allocatedDescs = [],
      RecentRemoteAllocatedDesc = -1, freeDescs = no_descs,
      HdfsGlobalContext = 0, HdfsFsTable = None, max_safe_fds = 32,
      max_files_per_process = 1000, errno = ENONE, kernel = k, trace = []\<rparr>"

text \<open>
  \<^verbatim>\<open>InitFileAccess\<close> allocates the table with its one header entry, whose free list is empty.
\<close>

definition InitFileAccess :: "state \<Rightarrow> unit res" where
  "InitFileAccess s =
     (let (m, s1) = syscall SysMalloc s
      in if rv m = 0 then (Inl (FATAL ''out of memory''), s1)
         else (Inr (), s1\<lparr>VfdCache := [(new_vfd 0)\<lparr>nextFree := 0\<rparr>]\<rparr>))"

definition started :: "(nat \<Rightarrow> sysres) \<Rightarrow> state" where
  "started k = snd (InitFileAccess (boot k))"


subsection \<open>Facts about the table primitives\<close>

text \<open>The 64 and 32 bit wrap-around is the identity on values in range.\<close>

lemma int64_in_range: "- (2 ^ 63) \<le> x \<Longrightarrow> x < 2 ^ 63 \<Longrightarrow> int64 x = x"
  unfolding int64_def sint_sbintrunc' by (rule signed_take_bit_int_eq_self) simp_all

lemma int64_add_left: "int64 (int64 a + b) = int64 (a + b)"
  by (simp add: int64_def)

lemma int32_in_range: "- (2 ^ 31) \<le> x \<Longrightarrow> x < 2 ^ 31 \<Longrightarrow> int32 x = x"
  unfolding int32_def sint_sbintrunc' by (rule signed_take_bit_int_eq_self) simp_all

lemma vfdP_set_vfd:
  "vfdP (set_vfd f g s) x = (if x = f \<and> f < length (VfdCache s) then g (vfdP s f) else vfdP s x)"
  by (cases "x = f"; cases "f < length (VfdCache s)") (simp_all add: vfdP_def set_vfd_def list_update_beyond)

lemma vfdP_frame [simp]:
  "vfdP (snd (syscall c s)) x = vfdP s x"
  "vfdP (elog l m s) x = vfdP s x"
  "vfdP (s\<lparr>nfile := n\<rparr>) x = vfdP s x"
  "vfdP (s\<lparr>errno := e\<rparr>) x = vfdP s x"
  by (simp_all add: vfdP_def)

lemma field_set_vfd:
  "(\<And>v. F (g v) = F v) \<Longrightarrow> F (vfdP (set_vfd f g s) x) = F (vfdP s x)"
  by (simp add: vfdP_set_vfd)

lemma Delete_fields [simp]:
  "fd (vfdP (Delete f s) x) = fd (vfdP s x)"
  "fdstate (vfdP (Delete f s) x) = fdstate (vfdP s x)"
  "create_subid (vfdP (Delete f s) x) = create_subid (vfdP s x)"
  "nextFree (vfdP (Delete f s) x) = nextFree (vfdP s x)"
  "seekPos (vfdP (Delete f s) x) = seekPos (vfdP s x)"
  "fileName (vfdP (Delete f s) x) = fileName (vfdP s x)"
  "fileFlags (vfdP (Delete f s) x) = fileFlags (vfdP s x)"
  "fileMode (vfdP (Delete f s) x) = fileMode (vfdP s x)"
  "hFS (vfdP (Delete f s) x) = hFS (vfdP s x)"
  "hFile (vfdP (Delete f s) x) = hFile (vfdP s x)"
  "hProtocol (vfdP (Delete f s) x) = hProtocol (vfdP s x)"
  unfolding Delete_def Let_def
  by (simp_all add: field_set_vfd[where F=fd] field_set_vfd[where F=fdstate]
      field_set_vfd[where F=create_subid] field_set_vfd[where F=nextFree]
      field_set_vfd[where F=seekPos] field_set_vfd[where F=fileName]
      field_set_vfd[where F=fileFlags] field_set_vfd[where F=fileMode]
      field_set_vfd[where F=hFS] field_set_vfd[where F=hFile] field_set_vfd[where F=hProtocol])

lemma Delete_locality [simp]:
  "IsLocalFile (Delete f s) x = IsLocalFile s x"
  "FileIsNotOpen (Delete f s) x = FileIsNotOpen s x"
  by (simp_all add: IsLocalFile_def FileIsNotOpen_def)

lemma Delete_links:
  assumes "lruLessRecently (vfdP s f) < length (VfdCache s)"
    and "lruMoreRecently (vfdP s f) < length (VfdCache s)"
    and "lruLessRecently (vfdP s f) \<noteq> f" and "lruMoreRecently (vfdP s f) \<noteq> f"
  shows "lruMoreRecently (vfdP (Delete f s) (lruLessRecently (vfdP s f))) = lruMoreRecently (vfdP s f)"
    and "lruLessRecently (vfdP (Delete f s) (lruMoreRecently (vfdP s f))) = lruLessRecently (vfdP s f)"
  using assms by (auto simp: Delete_def Let_def vfdP_set_vfd)


subsection \<open>Properties of the budget probe\<close>

lemma count_usable_fds_loop_spec:
  "count_usable_fds_loop M fds h s = (Inr (fds', h'), s') \<Longrightarrow> int (length fds) < M \<Longrightarrow>
   \<exists>k. fds' = fds @ map (\<lambda>i. rv (kernel s (length (trace s) + i))) [0..<k]
     \<and> (\<forall>i<k. 0 \<le> rv (kernel s (length (trace s) + i)))
     \<and> int (length fds') \<le> M
     \<and> (int (length fds') < M \<longrightarrow> rv (kernel s (length (trace s) + k)) < 0)
     \<and> h' = fold max (map (\<lambda>i. rv (kernel s (length (trace s) + i))) [0..<k]) h
     \<and> kernel s' = kernel s \<and> max_files_per_process s' = max_files_per_process s
     \<and> VfdCache s' = VfdCache s \<and> nfile s' = nfile s \<and> allocatedDescs s' = allocatedDescs s"
proof (induction M fds h s arbitrary: fds' h' s' rule: count_usable_fds_loop.induct)
  case (1 M fds h s)
  obtain r s1 where sc: "syscall (SysDup 0) s = (r, s1)" by (cases "syscall (SysDup 0) s")
  have r: "r = kernel s (length (trace s))" and s1: "s1 = snd (syscall (SysDup 0) s)"
    using sc syscall_frame(8)[of "SysDup 0" s] by auto
  show ?case
  proof (cases "rv r < 0")
    case True
    with "1.prems" sc have "fds' = fds" "h' = h" "s' = s1"
      by (auto simp: count_usable_fds_loop.simps[of M fds h s] Let_def split: if_splits)
    then show ?thesis using True r s1 "1.prems"(2)
      by (intro exI[of _ 0]) simp
  next
    case False
    let ?fds = "fds @ [rv r]"
    let ?h = "if h < rv r then rv r else h"
    show ?thesis
    proof (cases "int (length ?fds) \<ge> M")
      case True
      with "1.prems" sc False have "fds' = ?fds" "h' = ?h" "s' = s1"
        by (auto simp: count_usable_fds_loop.simps[of M fds h s] Let_def split: if_splits)
      then show ?thesis using True False r s1 "1.prems"(2)
        by (intro exI[of _ 1]) (auto simp add: max_def)
    next
      case F2: False
      with "1.prems" sc False have rec: "count_usable_fds_loop M ?fds ?h s1 = (Inr (fds', h'), s')"
        by (auto simp: count_usable_fds_loop.simps[of M fds h s] Let_def split: if_splits)
      from "1.IH"[OF sc[symmetric] refl _ refl refl _ rec] False F2
      obtain k where k: "fds' = ?fds @ map (\<lambda>i. rv (kernel s1 (length (trace s1) + i))) [0..<k]"
        "(\<forall>i<k. 0 \<le> rv (kernel s1 (length (trace s1) + i)))"
        "int (length fds') \<le> M"
        "(int (length fds') < M \<longrightarrow> rv (kernel s1 (length (trace s1) + k)) < 0)"
        "h' = fold max (map (\<lambda>i. rv (kernel s1 (length (trace s1) + i))) [0..<k]) ?h"
        "kernel s' = kernel s1" "max_files_per_process s' = max_files_per_process s1"
        "VfdCache s' = VfdCache s1" "nfile s' = nfile s1" "allocatedDescs s' = allocatedDescs s1"
        by auto
      have ks: "kernel s1 = kernel s" "length (trace s1) = Suc (length (trace s))"
        using s1 by simp_all
      have m: "map (\<lambda>i. rv (kernel s (length (trace s) + i))) [0..<Suc k]
             = rv r # map (\<lambda>i. rv (kernel s (Suc (length (trace s)) + i))) [0..<k]"
        by (simp add: r upt_conv_Cons map_Suc_upt[symmetric] del: upt_Suc)
      show ?thesis
        apply (rule exI[of _ "Suc k"])
        apply (subst m)+
        using k False unfolding ks s1
        apply (simp add: max_def r less_Suc_eq_0_disj)
        apply (auto simp: r)
        done
    qed
  qed
qed

text \<open>The descriptors the successful dups of the probe returned, in order.\<close>

definition probed_fds :: "state \<Rightarrow> int \<Rightarrow> int list" where
  "probed_fds s usable = map (\<lambda>i. rv (kernel s (length (trace s) + i))) [0..<nat usable]"

text \<open>A process whose 26th dup fails with EMFILE, descriptors 0 to 2 being open already.\<close>

definition probe_state :: state where
  "probe_state =
     \<lparr>VfdCache = [], nfile = 0, allocatedDescs = [],
      RecentRemoteAllocatedDesc = -1, freeDescs = no_descs,
      HdfsGlobalContext = 0, HdfsFsTable = None, max_safe_fds = 32,
      max_files_per_process = 1000, errno = ENONE,
      kernel = (\<lambda>n. if n < 25 then \<lparr>rv = int n + 3, rerrno = ENONE, rstrs = []\<rparr>
                    else if n = 25 then \<lparr>rv = -1, rerrno = EMFILE, rstrs = []\<rparr>
                    else \<lparr>rv = 0, rerrno = ENONE, rstrs = []\<rparr>),
      trace = []\<rparr>"

lemma close_all_frame:
  "kernel (close_all fs s) = kernel s \<and> max_files_per_process (close_all fs s) = max_files_per_process s
   \<and> VfdCache (close_all fs s) = VfdCache s \<and> nfile (close_all fs s) = nfile s
   \<and> allocatedDescs (close_all fs s) = allocatedDescs s"
  by (induction fs arbitrary: s) simp_all

text \<open>
  Claim C2. \<^verbatim>\<open>set_max_safe_fds\<close> sets \<^verbatim>\<open>max_safe_fds\<close> to
  \<open>min usable_fds (max_files_per_process - already_open) - 10\<close>, where \<open>usable_fds\<close> is
  the number of dups of descriptor 0 that succeeded before the first failure, at most
  \<^verbatim>\<open>max_files_per_process\<close>, and \<open>already_open\<close> is the highest descriptor seen
  (0 when none) plus 1 minus \<open>usable_fds\<close>. It raises the fatal insufficient-resources
  error exactly when that value is below 10, and returns normally otherwise. The
  configured cap is at least 1, and the probe itself returned (no dup failed with an
  errno other than EMFILE or ENFILE).
\<close>

theorem C2_set_max_safe_fds:
  assumes cap: "1 \<le> max_files_per_process s"
    and probe: "count_usable_fds (max_files_per_process s) s = (Inr (usable_fds, already_open), s1)"
  shows "0 \<le> usable_fds \<and> usable_fds \<le> max_files_per_process s
     \<and> (\<forall>d \<in> set (probed_fds s usable_fds). 0 \<le> d)
     \<and> (usable_fds < max_files_per_process s \<longrightarrow>
          rv (kernel s (length (trace s) + nat usable_fds)) < 0)
     \<and> already_open = Max (set (0 # probed_fds s usable_fds)) + 1 - usable_fds
     \<and> set_max_safe_fds s =
         (let v = min usable_fds (max_files_per_process s - already_open) - 10
          in if v < 10
             then (Inl (FATAL ''insufficient file handles available to start server process''),
                   s1\<lparr>max_safe_fds := v\<rparr>)
             else (Inr (), elog ''DEBUG2'' ''max_safe_fds'' (s1\<lparr>max_safe_fds := v\<rparr>)))"
proof -
  from probe obtain fds h s0 where
    loop: "count_usable_fds_loop (max_files_per_process s) [] 0 s = (Inr (fds, h), s0)"
    and u: "usable_fds = int (length fds)" and a: "already_open = h + 1 - int (length fds)"
    and s1: "s1 = close_all fds s0"
    by (auto simp: count_usable_fds_def Let_def split: prod.splits sum.splits)
  from count_usable_fds_loop_spec[OF loop] cap obtain k where
    k: "fds = map (\<lambda>i. rv (kernel s (length (trace s) + i))) [0..<k]"
       "\<forall>i<k. 0 \<le> rv (kernel s (length (trace s) + i))"
       "int (length fds) \<le> max_files_per_process s"
       "int (length fds) < max_files_per_process s \<longrightarrow> rv (kernel s (length (trace s) + k)) < 0"
       "h = fold max (map (\<lambda>i. rv (kernel s (length (trace s) + i))) [0..<k]) 0"
       "max_files_per_process s0 = max_files_per_process s"
    by auto
  have len: "length fds = k" using k(1) by simp
  have pf: "probed_fds s usable_fds = fds" using k(1) len by (simp add: probed_fds_def u)
  have h: "h = Max (set (0 # fds))" unfolding Max.set_eq_fold using k(5) k(1) by simp
  have m: "max_files_per_process s1 = max_files_per_process s"
    using s1 k(6) close_all_frame[of fds s0] by simp
  have c5: "set_max_safe_fds s =
         (let v = min usable_fds (max_files_per_process s - already_open) - 10
          in if v < 10
             then (Inl (FATAL ''insufficient file handles available to start server process''),
                   s1\<lparr>max_safe_fds := v\<rparr>)
             else (Inr (), elog ''DEBUG2'' ''max_safe_fds'' (s1\<lparr>max_safe_fds := v\<rparr>)))"
    using probe m by (simp add: set_max_safe_fds_def Let_def NUM_RESERVED_FDS_def FD_MINFREE_def)
  have c1: "0 \<le> usable_fds \<and> usable_fds \<le> max_files_per_process s" using u k(3) by simp
  have c2: "\<forall>d \<in> set (probed_fds s usable_fds). 0 \<le> d" unfolding pf using k(1,2) by auto
  have c3: "usable_fds < max_files_per_process s \<longrightarrow>
          rv (kernel s (length (trace s) + nat usable_fds)) < 0" using k(4) len u by simp
  have c4: "already_open = Max (set (0 # probed_fds s usable_fds)) + 1 - usable_fds"
    unfolding pf using a h u by simp
  show ?thesis using c1 c2 c3 c4 c5 by blast
qed


theorem C2_set_max_safe_fds_witness:
  "fst (set_max_safe_fds probe_state) = Inr () \<and> max_safe_fds (snd (set_max_safe_fds probe_state)) = 15"
proof -
  have cap: "1 \<le> max_files_per_process probe_state" by (simp add: probe_state_def)
  have "\<exists>s1. count_usable_fds (max_files_per_process probe_state) probe_state = (Inr (25, 3), s1)"
    by (simp add: probe_state_def count_usable_fds_def count_usable_fds_loop.simps syscall_def Let_def)
  then obtain s1 where p: "count_usable_fds (max_files_per_process probe_state) probe_state = (Inr (25, 3), s1)" ..
  from C2_set_max_safe_fds[OF cap p] show ?thesis
    by (simp add: probe_state_def elog_def)
qed


subsection \<open>Releasing the least recently used descriptor\<close>

text \<open>The two calls \<^verbatim>\<open>LruDelete\<close> makes for an entry: asking the position, closing.\<close>

definition lru_tell_call :: "state \<Rightarrow> nat \<Rightarrow> syscall" where
  "lru_tell_call s file =
     (if IsLocalFile s file then SysLseek (fd (vfdP s file)) 0 SEEK_CUR
      else DfsTell (hProtocol (vfdP s file)) (hFS (vfdP s file)) (hFile (vfdP s file)))"

definition lru_close_call :: "state \<Rightarrow> nat \<Rightarrow> syscall" where
  "lru_close_call s file =
     (if IsLocalFile s file then SysClose (fd (vfdP s file))
      else DfsCloseFile (hProtocol (vfdP s file)) (hFS (vfdP s file)) (hFile (vfdP s file)))"

lemma LruDelete_insist:
  "rv (kernel s (length (trace s))) = -1 \<Longrightarrow> file < length (VfdCache s) \<Longrightarrow>
   fst (LruDelete file s) = Inl internal_error"
  by (simp add: LruDelete_def Let_def split_def vfdP_set_vfd)

lemma LruDelete_close_fails:
  "rv (kernel s (length (trace s))) \<noteq> -1 \<Longrightarrow> rv (kernel s (Suc (length (trace s)))) \<noteq> 0 \<Longrightarrow>
   file < length (VfdCache s) \<Longrightarrow>
   fst (LruDelete file s) = Inl (ERROR ''could not close file'') \<and> nfile (snd (LruDelete file s)) = nfile s"
  by (simp add: LruDelete_def Let_def split_def vfdP_set_vfd)

lemma LruDelete_ok:
  assumes "rv (kernel s (length (trace s))) \<noteq> -1" "rv (kernel s (Suc (length (trace s)))) = 0"
    "file < length (VfdCache s)"
  shows "fst (LruDelete file s) = Inr ()"
    and "nfile (snd (LruDelete file s)) = nfile s - 1"
    and "vfdP (snd (LruDelete file s)) file =
           (vfdP (Delete file s) file)\<lparr>seekPos := rv (kernel s (length (trace s))),
              fd := VFD_CLOSED, hFS := 0, hFile := 0, hProtocol := None\<rparr>"
    and "x \<noteq> file \<Longrightarrow> vfdP (snd (LruDelete file s)) x = vfdP (Delete file s) x"
    and "map fst (trace (snd (LruDelete file s))) = map fst (trace s) @ [lru_tell_call s file, lru_close_call s file]"
  using assms
  by (simp_all add: LruDelete_def Let_def split_def vfdP_set_vfd lru_tell_call_def lru_close_call_def
      IsLocalFile_def)

text \<open>Concrete states for the examples: entries, answers of the environment, a ring of two.\<close>

definition mk_vfd :: "int \<Rightarrow> nat \<Rightarrow> nat \<Rightarrow> int \<Rightarrow> string option \<Rightarrow> vfd" where
  "mk_vfd fdn morer lessr pos name =
     \<lparr>fd = fdn, fdstate = 0, create_subid = 0, nextFree = 0,
      lruMoreRecently = morer, lruLessRecently = lessr, seekPos = pos, fileName = name,
      fileFlags = O_RDWR, fileMode = 384, hFS = 0, hFile = 0, hProtocol = None\<rparr>"

definition answer :: "int \<Rightarrow> sysres" where
  "answer n = \<lparr>rv = n, rerrno = ENONE, rstrs = []\<rparr>"

definition ring_state :: state where
  "ring_state =
     \<lparr>VfdCache = [mk_vfd (-1) 1 2 0 None,
                  mk_vfd 5 2 0 0 (Some ''base/1/a''),
                  mk_vfd 6 0 1 0 (Some ''base/1/b'')],
      nfile = 2, allocatedDescs = [],
      RecentRemoteAllocatedDesc = -1, freeDescs = no_descs,
      HdfsGlobalContext = 0, HdfsFsTable = None, max_safe_fds = 32, max_files_per_process = 1000,
      errno = ENONE,
      kernel = (\<lambda>n. if n = 0 then answer 7 else answer 0),
      trace = []\<rparr>"

text \<open>
  Claim C3 says that a negative saved position is a fatal invariant violation. The source
  tests \<^verbatim>\<open>Insist(vfdP->seekPos != (int64) -1)\<close>: in the ring of two below the position
  asked of the least recently used entry is answered with \<open>-2\<close>; the release succeeds and
  \<open>-2\<close> is the saved position.
\<close>

theorem C3_negative_position_is_saved:
  "rv (kernel (ring_state\<lparr>kernel := \<lambda>n. answer (if n = 0 then -2 else 0)\<rparr>) 0) = -2
   \<and> fst (ReleaseLruFile (ring_state\<lparr>kernel := \<lambda>n. answer (if n = 0 then -2 else 0)\<rparr>)) = Inr True
   \<and> seekPos (vfdP (snd (ReleaseLruFile
         (ring_state\<lparr>kernel := \<lambda>n. answer (if n = 0 then -2 else 0)\<rparr>))) 1) = -2"
  by (simp add: ReleaseLruFile_def LruDelete_def Delete_def ring_state_def answer_def
      vfdP_def mk_vfd_def set_vfd_def syscall_def IsLocalFile_def Let_def)

text \<open>
  Claim C3, amended. \<^verbatim>\<open>ReleaseLruFile\<close> answers false exactly when \<^verbatim>\<open>nfile\<close> is not
  positive, and then changes nothing. Otherwise it takes the entry at the least recently
  used end of the ring, asks for its position (\<^verbatim>\<open>lseek(fd, 0, SEEK_CUR)\<close> for a local
  entry, the DFS tell for a DFS entry) and saves it in \<^verbatim>\<open>seekPos\<close>; the position \<open>-1\<close>,
  and no other, is an internal error. It then closes the descriptor or the DFS handle; if
  that fails it raises an error and \<^verbatim>\<open>nfile\<close> is unchanged; if it succeeds \<^verbatim>\<open>nfile\<close> is
  one less, the entry's descriptor and DFS handles are the closed values, the answer is
  true and the entry's former ring neighbours, when they are entries of the table other
  than the entry itself, are linked to each other.
\<close>

theorem C3_ReleaseLruFile:
  fixes s :: state
  defines "file \<equiv> lruMoreRecently (vfdP s 0)"
  defines "L \<equiv> lruLessRecently (vfdP s (lruMoreRecently (vfdP s 0)))"
  defines "M \<equiv> lruMoreRecently (vfdP s (lruMoreRecently (vfdP s 0)))"
  defines "pos \<equiv> rv (kernel s (length (trace s)))"
  defines "closed \<equiv> rv (kernel s (Suc (length (trace s))))"
  defines "s' \<equiv> snd (ReleaseLruFile s)"
  shows "(fst (ReleaseLruFile s) = Inr False \<longleftrightarrow> nfile s \<le> 0)
    \<and> (nfile s \<le> 0 \<longrightarrow> s' = s)
    \<and> (0 < nfile s \<and> file < length (VfdCache s) \<longrightarrow>
          (pos = -1 \<longrightarrow> fst (ReleaseLruFile s) = Inl internal_error)
        \<and> (pos \<noteq> -1 \<and> closed \<noteq> 0 \<longrightarrow>
              fst (ReleaseLruFile s) = Inl (ERROR ''could not close file'') \<and> nfile s' = nfile s)
        \<and> (pos \<noteq> -1 \<and> closed = 0 \<longrightarrow>
              fst (ReleaseLruFile s) = Inr True
            \<and> map fst (trace s') = map fst (trace s) @ [lru_tell_call s file, lru_close_call s file]
            \<and> seekPos (vfdP s' file) = pos
            \<and> nfile s' = nfile s - 1
            \<and> fd (vfdP s' file) = VFD_CLOSED \<and> hFS (vfdP s' file) = 0 \<and> hFile (vfdP s' file) = 0
            \<and> hProtocol (vfdP s' file) = None
            \<and> (L < length (VfdCache s) \<and> M < length (VfdCache s) \<and> L \<noteq> file \<and> M \<noteq> file \<longrightarrow>
                  lruMoreRecently (vfdP s' L) = M \<and> lruLessRecently (vfdP s' M) = L)))"
proof -
  have zero: "nfile s \<le> 0 \<Longrightarrow> ReleaseLruFile s = (Inr False, s)"
    by (simp add: ReleaseLruFile_def)
  have pos_rel: "0 < nfile s \<Longrightarrow> ReleaseLruFile s =
      (case LruDelete file s of (Inl e, s1) \<Rightarrow> (Inl e, s1) | (Inr u, s1) \<Rightarrow> (Inr True, s1))"
    by (simp add: ReleaseLruFile_def file_def)
  have c1: "fst (ReleaseLruFile s) = Inr False \<longleftrightarrow> nfile s \<le> 0"
  proof (cases "nfile s \<le> 0")
    case True
    then show ?thesis using zero by simp
  next
    case False
    then have "0 < nfile s" by simp
    from pos_rel[OF this] False show ?thesis
      by (auto split: prod.splits sum.splits)
  qed
  have c2: "nfile s \<le> 0 \<longrightarrow> s' = s" using zero by (simp add: s'_def)
  have c3: "pos = -1 \<longrightarrow> fst (ReleaseLruFile s) = Inl internal_error"
    if n: "0 < nfile s" and inside: "file < length (VfdCache s)"
  proof
    assume "pos = -1"
    then have "rv (kernel s (length (trace s))) = -1" by (simp add: pos_def)
    from LruDelete_insist[OF this inside] pos_rel[OF n]
    show "fst (ReleaseLruFile s) = Inl internal_error"
      by (auto split: prod.splits sum.splits)
  qed
  have c4: "pos \<noteq> -1 \<and> closed \<noteq> 0 \<longrightarrow>
          fst (ReleaseLruFile s) = Inl (ERROR ''could not close file'') \<and> nfile s' = nfile s"
    if n: "0 < nfile s" and inside: "file < length (VfdCache s)"
  proof (intro impI, elim conjE)
    assume p: "pos \<noteq> -1" and c: "closed \<noteq> 0"
    from p have p': "rv (kernel s (length (trace s))) \<noteq> -1" by (simp add: pos_def)
    from c have c': "rv (kernel s (Suc (length (trace s)))) \<noteq> 0" by (simp add: closed_def)
    from LruDelete_close_fails[OF p' c' inside] pos_rel[OF n]
    show "fst (ReleaseLruFile s) = Inl (ERROR ''could not close file'') \<and> nfile s' = nfile s"
      by (auto simp: s'_def split: prod.splits sum.splits)
  qed
  have c5: "pos \<noteq> -1 \<and> closed = 0 \<longrightarrow>
          fst (ReleaseLruFile s) = Inr True
        \<and> map fst (trace s') = map fst (trace s) @ [lru_tell_call s file, lru_close_call s file]
        \<and> seekPos (vfdP s' file) = pos
        \<and> nfile s' = nfile s - 1
        \<and> fd (vfdP s' file) = VFD_CLOSED \<and> hFS (vfdP s' file) = 0 \<and> hFile (vfdP s' file) = 0
        \<and> hProtocol (vfdP s' file) = None
        \<and> (L < length (VfdCache s) \<and> M < length (VfdCache s) \<and> L \<noteq> file \<and> M \<noteq> file \<longrightarrow>
              lruMoreRecently (vfdP s' L) = M \<and> lruLessRecently (vfdP s' M) = L)"
    if n: "0 < nfile s" and inside: "file < length (VfdCache s)"
  proof (intro impI, elim conjE)
    assume p: "pos \<noteq> -1" and c: "closed = 0"
    from p have p': "rv (kernel s (length (trace s))) \<noteq> -1" by (simp add: pos_def)
    from c have c': "rv (kernel s (Suc (length (trace s)))) = 0" by (simp add: closed_def)
    note ok = LruDelete_ok[OF p' c' inside]
    have s': "s' = snd (LruDelete file s)" and r: "fst (ReleaseLruFile s) = Inr True"
      using pos_rel[OF n] ok(1) by (auto simp: s'_def split: prod.splits sum.splits)
    have links: "lruMoreRecently (vfdP s' L) = M \<and> lruLessRecently (vfdP s' M) = L"
      if "L < length (VfdCache s) \<and> M < length (VfdCache s) \<and> L \<noteq> file \<and> M \<noteq> file"
    proof -
      have "lruMoreRecently (vfdP (Delete file s) L) = M"
        "lruLessRecently (vfdP (Delete file s) M) = L"
        using Delete_links[where s=s and f="file"] inside that
        by (simp_all add: L_def M_def file_def)
      then show ?thesis using ok(4)[of L] ok(4)[of M] that by (simp add: s')
    qed
    show "fst (ReleaseLruFile s) = Inr True
        \<and> map fst (trace s') = map fst (trace s) @ [lru_tell_call s file, lru_close_call s file]
        \<and> seekPos (vfdP s' file) = pos
        \<and> nfile s' = nfile s - 1
        \<and> fd (vfdP s' file) = VFD_CLOSED \<and> hFS (vfdP s' file) = 0 \<and> hFile (vfdP s' file) = 0
        \<and> hProtocol (vfdP s' file) = None
        \<and> (L < length (VfdCache s) \<and> M < length (VfdCache s) \<and> L \<noteq> file \<and> M \<noteq> file \<longrightarrow>
              lruMoreRecently (vfdP s' L) = M \<and> lruLessRecently (vfdP s' M) = L)"
      using r ok(2,3,5) links by (simp add: s' pos_def)
  qed
  show ?thesis using c1 c2 c3 c4 c5 by blast
qed

text \<open>
  A process that has just started has no open entry and an empty ring: nothing is released
  and nothing changes. In the ring of two, entry 1 is released at position 7.
\<close>

theorem C3_ReleaseLruFile_witness:
  "ReleaseLruFile (started (\<lambda>n. answer 1)) = (Inr False, started (\<lambda>n. answer 1))
   \<and> fst (ReleaseLruFile ring_state) = Inr True
   \<and> seekPos (vfdP (snd (ReleaseLruFile ring_state)) 1) = 7
   \<and> nfile (snd (ReleaseLruFile ring_state)) = 1
   \<and> fd (vfdP (snd (ReleaseLruFile ring_state)) 1) = VFD_CLOSED
   \<and> lruMoreRecently (vfdP (snd (ReleaseLruFile ring_state)) 0) = 2"
proof -
  have z: "nfile (started (\<lambda>n. answer 1)) \<le> 0"
    by (simp add: started_def InitFileAccess_def boot_def syscall_def Let_def answer_def)
  have k: "0 < nfile ring_state" "lruMoreRecently (vfdP ring_state 0) < length (VfdCache ring_state)"
    "rv (kernel ring_state (length (trace ring_state))) \<noteq> -1"
    "rv (kernel ring_state (Suc (length (trace ring_state)))) = 0"
    "rv (kernel ring_state (length (trace ring_state))) = 7" "nfile ring_state = 2"
    by (simp_all add: ring_state_def answer_def vfdP_def mk_vfd_def)
  have e: "lruMoreRecently (vfdP ring_state 0) = Suc 0"
    "lruLessRecently (vfdP ring_state (Suc 0)) = 0"
    "lruMoreRecently (vfdP ring_state (Suc 0)) = 2"
    "length (VfdCache ring_state) = 3"
    by (simp_all add: ring_state_def vfdP_def mk_vfd_def)
  have a: "ReleaseLruFile (started (\<lambda>n. answer 1)) = (Inr False, started (\<lambda>n. answer 1))"
    using C3_ReleaseLruFile[of "started (\<lambda>n. answer 1)"] z
    by (cases "ReleaseLruFile (started (\<lambda>n. answer 1))") simp
  from C3_ReleaseLruFile[of ring_state] k have
    "fst (ReleaseLruFile ring_state) = Inr True
   \<and> seekPos (vfdP (snd (ReleaseLruFile ring_state)) 1) = 7
   \<and> nfile (snd (ReleaseLruFile ring_state)) = 1
   \<and> fd (vfdP (snd (ReleaseLruFile ring_state)) 1) = VFD_CLOSED
   \<and> lruMoreRecently (vfdP (snd (ReleaseLruFile ring_state)) 0) = 2"
    by (simp add: e)
  with a show ?thesis by simp
qed


subsection \<open>Closing an entry\<close>

lemma gp_retry_close_frame_aux:
  "gp_retry_close fdn s = Some y \<Longrightarrow>
     VfdCache (snd y) = VfdCache s \<and> nfile (snd y) = nfile s \<and> kernel (snd y) = kernel s
     \<and> allocatedDescs (snd y) = allocatedDescs s \<and> max_safe_fds (snd y) = max_safe_fds s
     \<and> length (trace s) < length (trace (snd y))
     \<and> fst y = rv (kernel s (length (trace (snd y)) - 1))"
proof (induction rule: gp_retry_close.raw_induct[rotated 1, consumes 1])
  case (1 f fdn s y)
  show ?case
  proof (cases "rv (kernel s (length (trace s))) = -1 \<and> errno (snd (syscall (SysClose fdn) s)) = EINTR")
    case True
    with 1(2) have "f fdn (snd (syscall (SysClose fdn) s)) = Some y"
      by (simp add: split_def)
    from 1(1)[OF this] show ?thesis by simp
  next
    case False
    with 1(2) have "y = (rv (kernel s (length (trace s))), snd (syscall (SysClose fdn) s))"
      by (auto simp: split_def split: if_splits)
    then show ?thesis by simp
  qed
qed

lemma gp_retry_close_frame:
  "gp_retry_close fdn s = Some (c, s') \<Longrightarrow>
     VfdCache s' = VfdCache s \<and> nfile s' = nfile s \<and> kernel s' = kernel s
     \<and> allocatedDescs s' = allocatedDescs s \<and> max_safe_fds s' = max_safe_fds s
     \<and> length (trace s) < length (trace s')
     \<and> c = rv (kernel s (length (trace s') - 1))"
  using gp_retry_close_frame_aux[of fdn s "(c, s')"] by simp

lemma gp_retry_close_first:
  "rv (kernel s (length (trace s))) \<noteq> -1 \<Longrightarrow>
   gp_retry_close fdn s = Some (rv (kernel s (length (trace s))), snd (syscall (SysClose fdn) s))"
  by (subst gp_retry_close.simps) (simp add: split_def)

lemma gp_retry_close_retry:
  "rv (kernel s (length (trace s))) = -1 \<Longrightarrow> rerrno (kernel s (length (trace s))) = EINTR \<Longrightarrow>
   gp_retry_close fdn s = gp_retry_close fdn (snd (syscall (SysClose fdn) s))"
  by (subst gp_retry_close.simps) (simp add: split_def syscall_def Let_def)

lemma FreeVfd_frame [simp]:
  "kernel (FreeVfd f s) = kernel s"
  "trace (FreeVfd f s) = trace s"
  "nfile (FreeVfd f s) = nfile s"
  "allocatedDescs (FreeVfd f s) = allocatedDescs s"
  "max_safe_fds (FreeVfd f s) = max_safe_fds s"
  "errno (FreeVfd f s) = errno s"
  "length (VfdCache (FreeVfd f s)) = length (VfdCache s)"
  by (simp_all add: FreeVfd_def Let_def)

lemma FreeVfd_slot:
  assumes "0 < f" "f < length (VfdCache s)"
  shows "vfdP (FreeVfd f s) f =
           (vfdP s f)\<lparr>fileName := None, fdstate := 0, hFS := 0, hFile := 0, hProtocol := None,
                       nextFree := nextFree (vfdP s 0)\<rparr>"
    and "vfdP (FreeVfd f s) 0 = (vfdP s 0)\<lparr>nextFree := f\<rparr>"
    and "x \<noteq> f \<Longrightarrow> x \<noteq> 0 \<Longrightarrow> vfdP (FreeVfd f s) x = vfdP s x"
proof -
  have "0 < length (VfdCache s)" using assms by auto
  then show "vfdP (FreeVfd f s) f =
           (vfdP s f)\<lparr>fileName := None, fdstate := 0, hFS := 0, hFile := 0, hProtocol := None,
                       nextFree := nextFree (vfdP s 0)\<rparr>"
    and "vfdP (FreeVfd f s) 0 = (vfdP s 0)\<lparr>nextFree := f\<rparr>"
    and "x \<noteq> f \<Longrightarrow> x \<noteq> 0 \<Longrightarrow> vfdP (FreeVfd f s) x = vfdP s x"
    using assms by (simp_all add: FreeVfd_def Let_def vfdP_set_vfd)
qed

text \<open>
  \<^verbatim>\<open>LocalFileClose\<close> on an entry with the \<^verbatim>\<open>FD_TEMPORARY\<close> bit, once the descriptor is
  closed or when the entry held none.
\<close>

lemma LocalFileClose_unlinks:
  assumes slot: "0 < file" "file < length (VfdCache s)"
    and temp: "fdstate (vfdP s file) AND FD_TEMPORARY \<noteq> 0"
    and closed: "if FileIsNotOpen s file then s2 = s
                 else gp_retry_close (fd (vfdP s file)) (Delete file s) = Some (0, s2)"
  shows "\<exists>s' seen. LocalFileClose file s = Some (Inr (), s')
      \<and> trace s' = trace s2 @ (SysUnlink (fileName (vfdP s file)), seen)
                       # (if rv (kernel s (length (trace s2))) \<noteq> 0
                          then [(Elog ''DEBUG1'' ''failed to unlink'', seen)] else [])
      \<and> fdstate (seen ! file) AND FD_TEMPORARY = 0
      \<and> fileName (vfdP s' file) = None \<and> fdstate (vfdP s' file) = 0
      \<and> fd (vfdP s' file) = VFD_CLOSED
      \<and> nextFree (vfdP s' 0) = file \<and> nextFree (vfdP s' file) = nextFree (vfdP s 0)"
proof -
  define t where "t = (if FileIsNotOpen s file then s
                       else set_vfd file (\<lambda>v. v\<lparr>fd := VFD_CLOSED\<rparr>) (s2\<lparr>nfile := nfile s2 - 1\<rparr>))"
  have fr: "FileIsNotOpen s file \<or>
      (VfdCache s2 = VfdCache (Delete file s) \<and> kernel s2 = kernel s)"
    using closed gp_retry_close_frame[of "fd (vfdP s file)" "Delete file s" 0 s2]
    by (auto split: if_splits)
  have len: "length (VfdCache t) = length (VfdCache s)"
    using fr by (auto simp: t_def)
  have tk: "kernel t = kernel s" "trace t = trace s2"
    using fr closed by (auto simp: t_def split: if_splits)
  have eq: "vfdP (s2\<lparr>nfile := n\<rparr>) x = vfdP (Delete file s) x" if "\<not> FileIsNotOpen s file" for x n
    using fr that by (simp add: vfdP_def)
  have l2: "length (VfdCache s2) = length (VfdCache s)" if "\<not> FileIsNotOpen s file"
    using fr that by simp
  have tf: "fdstate (vfdP t file) = fdstate (vfdP s file)" "fileName (vfdP t file) = fileName (vfdP s file)"
    "fd (vfdP t file) = VFD_CLOSED" "nextFree (vfdP t 0) = nextFree (vfdP s 0)"
  proof -
    show "fdstate (vfdP t file) = fdstate (vfdP s file)"
      using slot eq l2 by (cases "FileIsNotOpen s file") (simp_all add: t_def vfdP_set_vfd)
    show "fileName (vfdP t file) = fileName (vfdP s file)"
      using slot eq l2 by (cases "FileIsNotOpen s file") (simp_all add: t_def vfdP_set_vfd)
    show "fd (vfdP t file) = VFD_CLOSED"
      using slot eq l2 by (cases "FileIsNotOpen s file") (simp_all add: t_def vfdP_set_vfd FileIsNotOpen_def)
    show "nextFree (vfdP t 0) = nextFree (vfdP s 0)"
      using slot eq l2 by (cases "FileIsNotOpen s file") (simp_all add: t_def vfdP_set_vfd)
  qed
  define t4 where "t4 = set_vfd file (\<lambda>v. v\<lparr>fdstate := fdstate v AND NOT FD_TEMPORARY\<rparr>) t"
  define t5 where "t5 = snd (syscall (SysUnlink (fileName (vfdP t4 file))) t4)"
  define t3 where "t3 = (if rv (kernel s (length (trace s2))) \<noteq> 0
                         then elog ''DEBUG1'' ''failed to unlink'' t5 else t5)"
  have body: "LocalFileClose file s = Some (Inr (), FreeVfd file t3)"
    using closed temp tf tk
    by (auto simp: LocalFileClose_def Let_def split_def t_def t3_def t4_def t5_def)
  have bit: "fdstate (VfdCache t4 ! file) AND FD_TEMPORARY = 0"
    using slot len by (simp add: t4_def set_vfd_def word_bw_assocs)
  have tr: "trace t3 = trace s2 @ (SysUnlink (fileName (vfdP s file)), VfdCache t4)
                       # (if rv (kernel s (length (trace s2))) \<noteq> 0
                          then [(Elog ''DEBUG1'' ''failed to unlink'', VfdCache t4)] else [])"
    using tf tk slot len by (simp add: t3_def t5_def t4_def vfdP_set_vfd)
  have l3: "length (VfdCache t3) = length (VfdCache s)" using len by (simp add: t3_def t5_def t4_def)
  have f3: "nextFree (vfdP t3 0) = nextFree (vfdP s 0)" "fd (vfdP t3 file) = VFD_CLOSED"
    using tf slot len by (simp_all add: t3_def t5_def t4_def vfdP_set_vfd)
  show ?thesis
    apply (rule exI[of _ "FreeVfd file t3"], rule exI[of _ "VfdCache t4"])
    using body bit tr FreeVfd_slot(1,2)[of "file" t3] slot l3 f3
    by simp
qed

lemma LocalFileClose_close_fails:
  assumes "\<not> FileIsNotOpen s file"
    and "gp_retry_close (fd (vfdP s file)) (Delete file s) = Some (c, s2)" and "c \<noteq> 0"
  shows "LocalFileClose file s = Some (Inl (ERROR ''could not close file''), s2)"
    and "fdstate (vfdP s2 file) = fdstate (vfdP s file)"
    and "fileName (vfdP s2 file) = fileName (vfdP s file)"
    and "\<exists>n. map fst (trace s2) = map fst (trace s) @ replicate n (SysClose (fd (vfdP s file)))"
proof -
  from gp_retry_close_frame[OF assms(2)]
  have fr: "VfdCache s2 = VfdCache (Delete file s)" by auto
  have eq: "vfdP s2 x = vfdP (Delete file s) x" for x using fr by (simp add: vfdP_def)
  show "LocalFileClose file s = Some (Inl (ERROR ''could not close file''), s2)"
    using assms by (simp add: LocalFileClose_def Let_def)
  show "fdstate (vfdP s2 file) = fdstate (vfdP s file)"
    "fileName (vfdP s2 file) = fileName (vfdP s file)" by (simp_all add: eq)
  have "\<exists>n. map fst (trace (snd y)) = map fst (trace t) @ replicate n (SysClose fdn)"
    if "gp_retry_close fdn t = Some y" for fdn t y
    using that
  proof (induction rule: gp_retry_close.raw_induct[rotated 1, consumes 1])
    case (1 f fdn t y)
    show ?case
    proof (cases "rv (kernel t (length (trace t))) = -1 \<and> errno (snd (syscall (SysClose fdn) t)) = EINTR")
      case True
      with 1(2) have "f fdn (snd (syscall (SysClose fdn) t)) = Some y"
        by (simp add: split_def)
      from 1(1)[OF this] obtain n where
        "map fst (trace (snd y)) = map fst (trace t) @ replicate (Suc n) (SysClose fdn)"
        by (auto simp: replicate_append_same)
      then show ?thesis by blast
    next
      case False
      with 1(2) have "y = (rv (kernel t (length (trace t))), snd (syscall (SysClose fdn) t))"
        by (auto simp: split_def split: if_splits)
      then have "map fst (trace (snd y)) = map fst (trace t) @ replicate 1 (SysClose fdn)"
        by simp
      then show ?thesis by blast
    qed
  qed
  from this[OF assms(2)]
  show "\<exists>n. map fst (trace s2) = map fst (trace s) @ replicate n (SysClose (fd (vfdP s file)))"
    by simp
qed

text \<open>
  A DFS entry that is open, on a client whose calls all succeed. \<^verbatim>\<open>FileUnlink\<close> sets
  \<^verbatim>\<open>FD_TEMPORARY\<close> on it, as on any entry, and closes it.
\<close>

definition dfs_open_state :: state where
  "dfs_open_state =
     \<lparr>VfdCache = [mk_vfd (-1) 0 0 0 None,
                  (mk_vfd (-1) 0 0 10 (Some ''hdfs://h:1/f''))
                    \<lparr>hFS := 3, hFile := 4, hProtocol := Some ''hdfs''\<rparr>],
      nfile = 0, allocatedDescs = [],
      RecentRemoteAllocatedDesc = -1, freeDescs = no_descs,
      HdfsGlobalContext = 0, HdfsFsTable = None, max_safe_fds = 32, max_files_per_process = 1000,
      errno = ENONE,
      kernel = (\<lambda>n. answer 0),
      trace = []\<rparr>"

definition dfs_temp_state :: state where
  "dfs_temp_state = set_vfd 1 (\<lambda>v. v\<lparr>fdstate := fdstate v OR FD_TEMPORARY\<rparr>) dfs_open_state"

text \<open>
  Claim C7 is stated of \<^verbatim>\<open>FileClose\<close> on every entry with the \<^verbatim>\<open>TEMPORARY\<close> bit. For an
  entry that holds DFS handles \<^verbatim>\<open>FileClose\<close> goes to \<^verbatim>\<open>HdfsFileClose\<close>, which never looks
  at the bit: the close of the entry below, which is the close \<^verbatim>\<open>FileUnlink\<close> makes, returns
  normally after the one call that closes the DFS handle, and no \<^verbatim>\<open>unlink\<close> is called.
\<close>

theorem C7_dfs_close_does_not_unlink:
  "\<not> IsLocalFile dfs_temp_state 1
   \<and> fdstate (vfdP dfs_temp_state 1) AND FD_TEMPORARY \<noteq> 0
   \<and> FileUnlink 1 dfs_open_state = FileClose 1 dfs_temp_state
   \<and> map_option (\<lambda>r. (fst r, map fst (trace (snd r)))) (FileClose 1 dfs_temp_state)
       = Some (Inr (), [DfsCloseFile (Some ''hdfs'') 3 4])"
  by (simp add: dfs_temp_state_def dfs_open_state_def FileUnlink_def FileClose_def
      HdfsFileClose_def FreeVfd_def IsLocalFile_def FileIsNotOpen_def vfdP_def mk_vfd_def
      set_vfd_def syscall_def answer_def Let_def FD_TEMPORARY_def VFD_CLOSED_def)

text \<open>
  Claim C7, amended. \<^verbatim>\<open>FileClose\<close> on a local entry with the \<^verbatim>\<open>FD_TEMPORARY\<close> bit: when
  the close of the descriptor fails, the error is raised at once, with the bit and the name
  as they were and no call but \<^verbatim>\<open>close\<close> made. Once the descriptor is closed (or when the
  entry held none), \<^verbatim>\<open>unlink\<close> is called on the entry's file name, and the table that call
  can observe already has the bit cleared; whatever \<^verbatim>\<open>unlink\<close> answers, the function
  returns normally, a failure adds one log line, and the entry ends up at the head of the
  free list, without a name. On an entry with DFS handles the bit has no effect: the one
  call made is the close of the DFS handle.
\<close>

theorem C7_FileClose_temporary:
  assumes slot: "0 < file" "file < length (VfdCache s)"
    and temp: "fdstate (vfdP s file) AND FD_TEMPORARY \<noteq> 0"
  shows "(IsLocalFile s file
          \<and> (if FileIsNotOpen s file then s2 = s
              else gp_retry_close (fd (vfdP s file)) (Delete file s) = Some (0, s2)) \<longrightarrow>
          (\<exists>s' seen. FileClose file s = Some (Inr (), s')
            \<and> trace s' = trace s2 @ (SysUnlink (fileName (vfdP s file)), seen)
                       # (if rv (kernel s (length (trace s2))) \<noteq> 0
                          then [(Elog ''DEBUG1'' ''failed to unlink'', seen)] else [])
            \<and> fdstate (seen ! file) AND FD_TEMPORARY = 0
            \<and> fileName (vfdP s' file) = None \<and> fdstate (vfdP s' file) = 0
            \<and> fd (vfdP s' file) = VFD_CLOSED
            \<and> nextFree (vfdP s' 0) = file \<and> nextFree (vfdP s' file) = nextFree (vfdP s 0)))
       \<and> (IsLocalFile s file \<and> \<not> FileIsNotOpen s file
          \<and> gp_retry_close (fd (vfdP s file)) (Delete file s) = Some (c, s3) \<and> c \<noteq> 0 \<longrightarrow>
          FileClose file s = Some (Inl (ERROR ''could not close file''), s3)
          \<and> fdstate (vfdP s3 file) AND FD_TEMPORARY \<noteq> 0
          \<and> fileName (vfdP s3 file) = fileName (vfdP s file)
          \<and> (\<exists>n. map fst (trace s3) = map fst (trace s) @ replicate n (SysClose (fd (vfdP s file)))))
       \<and> (\<not> IsLocalFile s file \<longrightarrow>
          (\<exists>r s'. FileClose file s = Some (r, s')
            \<and> map fst (trace s') = map fst (trace s) @
                 [DfsCloseFile (hProtocol (vfdP s file)) (hFS (vfdP s file)) (hFile (vfdP s file))]))"
proof -
  have c1: "\<exists>s' seen. FileClose file s = Some (Inr (), s')
            \<and> trace s' = trace s2 @ (SysUnlink (fileName (vfdP s file)), seen)
                       # (if rv (kernel s (length (trace s2))) \<noteq> 0
                          then [(Elog ''DEBUG1'' ''failed to unlink'', seen)] else [])
            \<and> fdstate (seen ! file) AND FD_TEMPORARY = 0
            \<and> fileName (vfdP s' file) = None \<and> fdstate (vfdP s' file) = 0
            \<and> fd (vfdP s' file) = VFD_CLOSED
            \<and> nextFree (vfdP s' 0) = file \<and> nextFree (vfdP s' file) = nextFree (vfdP s 0)"
    if "IsLocalFile s file" and "if FileIsNotOpen s file then s2 = s
              else gp_retry_close (fd (vfdP s file)) (Delete file s) = Some (0, s2)"
    using LocalFileClose_unlinks[OF slot temp that(2)] that(1) by (simp add: FileClose_def)
  have c2: "FileClose file s = Some (Inl (ERROR ''could not close file''), s3)
          \<and> fdstate (vfdP s3 file) AND FD_TEMPORARY \<noteq> 0
          \<and> fileName (vfdP s3 file) = fileName (vfdP s file)
          \<and> (\<exists>n. map fst (trace s3) = map fst (trace s) @ replicate n (SysClose (fd (vfdP s file))))"
    if "IsLocalFile s file" "\<not> FileIsNotOpen s file"
      "gp_retry_close (fd (vfdP s file)) (Delete file s) = Some (c, s3)" "c \<noteq> 0"
    using LocalFileClose_close_fails[OF that(2,3,4)] that(1) temp by (simp add: FileClose_def)
  have c3: "\<exists>r s'. FileClose file s = Some (r, s')
            \<and> map fst (trace s') = map fst (trace s) @
                 [DfsCloseFile (hProtocol (vfdP s file)) (hFS (vfdP s file)) (hFile (vfdP s file))]"
    if d: "\<not> IsLocalFile s file"
  proof -
    have op: "\<not> FileIsNotOpen s file"
      using d by (auto simp: IsLocalFile_def FileIsNotOpen_def split: if_splits)
    show ?thesis
      using d op
      by (cases "HdfsFileClose file True s")
         (auto simp: FileClose_def HdfsFileClose_def Let_def split_def split: if_splits)
  qed
  show ?thesis using c1 c2 c3 by blast
qed

text \<open>
  A temporary file that is open: the first \<^verbatim>\<open>close\<close> is interrupted, the second
  succeeds, the \<^verbatim>\<open>unlink\<close> fails.
\<close>

definition temp_state :: state where
  "temp_state =
     \<lparr>VfdCache = [mk_vfd (-1) 1 1 0 None,
                  (mk_vfd 5 0 0 0 (Some ''base/pgsql_tmp/pgsql_tmp_x''))\<lparr>fdstate := FD_TEMPORARY\<rparr>],
      nfile = 1, allocatedDescs = [],
      RecentRemoteAllocatedDesc = -1, freeDescs = no_descs,
      HdfsGlobalContext = 0, HdfsFsTable = None, max_safe_fds = 32, max_files_per_process = 1000,
      errno = ENONE,
      kernel = (\<lambda>n. if n = 0 then \<lparr>rv = -1, rerrno = EINTR, rstrs = []\<rparr>
                    else if n = 1 then answer 0
                    else \<lparr>rv = -1, rerrno = ENOENT, rstrs = []\<rparr>),
      trace = []\<rparr>"

theorem C7_FileClose_temporary_witness:
  "\<exists>s'. FileClose 1 temp_state = Some (Inr (), s')
     \<and> fileName (vfdP s' 1) = None \<and> nextFree (vfdP s' 0) = 1
     \<and> length (trace s') = 4"
proof -
  define s2 where "s2 = snd (syscall (SysClose 5) (snd (syscall (SysClose 5) (Delete 1 temp_state))))"
  have k: "kernel (Delete 1 temp_state) = kernel temp_state" "trace (Delete 1 temp_state) = []"
    "errno (Delete 1 temp_state) = ENONE"
    by (simp_all add: temp_state_def)
  have open1: "\<not> FileIsNotOpen temp_state 1" "fd (vfdP temp_state 1) = 5"
    "IsLocalFile temp_state 1"
    by (simp_all add: FileIsNotOpen_def IsLocalFile_def temp_state_def vfdP_def mk_vfd_def
        VFD_CLOSED_def)
  have a: "gp_retry_close 5 (Delete 1 temp_state)
           = gp_retry_close 5 (snd (syscall (SysClose 5) (Delete 1 temp_state)))"
    by (rule gp_retry_close_retry) (simp_all add: temp_state_def)
  have b: "gp_retry_close 5 (snd (syscall (SysClose 5) (Delete 1 temp_state))) = Some (0, s2)"
    using gp_retry_close_first[of "snd (syscall (SysClose 5) (Delete 1 temp_state))" 5]
    by (simp add: s2_def temp_state_def answer_def)
  have g: "gp_retry_close 5 (Delete 1 temp_state) = Some (0, s2)"
    using a b by simp
  have h: "(0::nat) < 1" "1 < length (VfdCache temp_state)"
    "fdstate (vfdP temp_state 1) AND FD_TEMPORARY \<noteq> 0"
    by (simp_all add: temp_state_def vfdP_def mk_vfd_def FD_TEMPORARY_def)
  have c: "if FileIsNotOpen temp_state 1 then s2 = temp_state
     else gp_retry_close (fd (vfdP temp_state 1)) (Delete 1 temp_state) = Some (0, s2)"
    using open1 g by simp
  have k0: "trace temp_state = []" by (simp add: temp_state_def)
  have t2: "length (trace s2) = 2" by (simp add: s2_def k0)
  have u: "rv (kernel temp_state 2) \<noteq> 0" by (simp add: temp_state_def)
  note T = C7_FileClose_temporary[OF h, of s2 0 s2, THEN conjunct1, THEN mp,
      OF conjI[OF open1(3) c]]
  from T t2 u show ?thesis
    by auto
qed

text \<open>
  Claim C10. \<^verbatim>\<open>FileClose\<close> on an entry that holds DFS handles calls the client's close
  once, clears the handles and puts the entry at the head of the free list whatever the
  close answered; the error for a failed close (answer \<open>-1\<close>) is raised with the entry
  already cleared and freed. The local path differs: when \<^verbatim>\<open>close\<close> fails the error is
  raised with the entry still named, still holding its descriptor, and not on the free
  list.
\<close>

theorem C10_HdfsFileClose:
  assumes slot: "0 < file" "file < length (VfdCache s)"
  shows "(\<not> IsLocalFile s file \<longrightarrow>
           (\<exists>s'. FileClose file s =
                   Some (if rv (kernel s (length (trace s))) = -1
                         then Inl (ERROR ''could not close file'') else Inr (), s')
              \<and> trace s' = trace s @ [(DfsCloseFile (hProtocol (vfdP s file)) (hFS (vfdP s file))
                                          (hFile (vfdP s file)), VfdCache s)]
              \<and> hFS (vfdP s' file) = 0 \<and> hFile (vfdP s' file) = 0 \<and> hProtocol (vfdP s' file) = None
              \<and> fd (vfdP s' file) = VFD_CLOSED \<and> fileName (vfdP s' file) = None
              \<and> nextFree (vfdP s' 0) = file \<and> FileIsNotOpen s' file))
       \<and> (IsLocalFile s file \<and> \<not> FileIsNotOpen s file
            \<and> gp_retry_close (fd (vfdP s file)) (Delete file s) = Some (c, s2) \<and> c \<noteq> 0 \<longrightarrow>
           FileClose file s = Some (Inl (ERROR ''could not close file''), s2)
           \<and> fileName (vfdP s2 file) = fileName (vfdP s file) \<and> fd (vfdP s2 file) = fd (vfdP s file)
           \<and> nextFree (vfdP s2 0) = nextFree (vfdP s 0) \<and> nfile s2 = nfile s)"
proof (rule conjI; rule impI)
  assume dfs: "\<not> IsLocalFile s file"
  then have op: "\<not> FileIsNotOpen s file"
    by (auto simp: IsLocalFile_def FileIsNotOpen_def split: if_splits)
  define c where "c = DfsCloseFile (hProtocol (vfdP s file)) (hFS (vfdP s file)) (hFile (vfdP s file))"
  define s00 where "s00 = set_vfd file (\<lambda>v. v\<lparr>fd := VFD_CLOSED, hFS := 0, hFile := 0\<rparr>)
                            (snd (syscall c s))"
  define s0 where "s0 = (if hProtocol (vfdP s00 file) \<noteq> None
                         then set_vfd file (\<lambda>v. v\<lparr>hProtocol := None\<rparr>) s00 else s00)"
  have body: "HdfsFileClose file True s =
      (if rv (kernel s (length (trace s))) = -1 then Inl (ERROR ''could not close file'') else Inr (),
       FreeVfd file s0)"
    using op slot
    by (simp add: HdfsFileClose_def Let_def split_def s0_def s00_def c_def)
  have l0: "length (VfdCache s0) = length (VfdCache s)" by (simp add: s0_def s00_def)
  have v0: "fd (vfdP s0 file) = VFD_CLOSED" using slot by (simp add: s0_def s00_def vfdP_set_vfd)
  have "trace (FreeVfd file s0) = trace s @ [(c, VfdCache s)]" by (simp add: s0_def s00_def)
  then show "\<exists>s'. FileClose file s =
                   Some (if rv (kernel s (length (trace s))) = -1
                         then Inl (ERROR ''could not close file'') else Inr (), s')
              \<and> trace s' = trace s @ [(DfsCloseFile (hProtocol (vfdP s file)) (hFS (vfdP s file))
                                          (hFile (vfdP s file)), VfdCache s)]
              \<and> hFS (vfdP s' file) = 0 \<and> hFile (vfdP s' file) = 0 \<and> hProtocol (vfdP s' file) = None
              \<and> fd (vfdP s' file) = VFD_CLOSED \<and> fileName (vfdP s' file) = None
              \<and> nextFree (vfdP s' 0) = file \<and> FileIsNotOpen s' file"
    using body dfs FreeVfd_slot(1,2)[of "file" s0] slot l0 v0
    by (intro exI[of _ "FreeVfd file s0"]) (simp add: FileClose_def c_def FileIsNotOpen_def)
next
  assume a: "IsLocalFile s file \<and> \<not> FileIsNotOpen s file
            \<and> gp_retry_close (fd (vfdP s file)) (Delete file s) = Some (c, s2) \<and> c \<noteq> 0"
  from a gp_retry_close_frame[of "fd (vfdP s file)" "Delete file s" c s2]
  have fr: "VfdCache s2 = VfdCache (Delete file s)" "nfile s2 = nfile s" by auto
  have eq: "vfdP s2 x = vfdP (Delete file s) x" for x using fr by (simp add: vfdP_def)
  show "FileClose file s = Some (Inl (ERROR ''could not close file''), s2)
           \<and> fileName (vfdP s2 file) = fileName (vfdP s file) \<and> fd (vfdP s2 file) = fd (vfdP s file)
           \<and> nextFree (vfdP s2 0) = nextFree (vfdP s 0) \<and> nfile s2 = nfile s"
    using a fr(2) by (simp add: FileClose_def LocalFileClose_def Let_def eq)
qed

text \<open>A DFS entry whose close fails.\<close>

definition dfs_state :: state where
  "dfs_state =
     \<lparr>VfdCache = [mk_vfd (-1) 0 0 0 None,
                  (mk_vfd (-1) 0 0 10 (Some ''hdfs://h:1/f''))
                    \<lparr>hFS := 3, hFile := 4, hProtocol := Some ''hdfs''\<rparr>],
      nfile = 0, allocatedDescs = [],
      RecentRemoteAllocatedDesc = -1, freeDescs = no_descs,
      HdfsGlobalContext = 0, HdfsFsTable = None, max_safe_fds = 32, max_files_per_process = 1000,
      errno = ENONE,
      kernel = (\<lambda>n. \<lparr>rv = -1, rerrno = EIO, rstrs = []\<rparr>),
      trace = []\<rparr>"

theorem C10_HdfsFileClose_witness:
  "\<exists>s'. FileClose 1 dfs_state = Some (Inl (ERROR ''could not close file''), s')
     \<and> hFS (vfdP s' 1) = 0 \<and> hFile (vfdP s' 1) = 0 \<and> fileName (vfdP s' 1) = None
     \<and> nextFree (vfdP s' 0) = 1 \<and> length (trace s') = 1"
proof -
  have h: "(0::nat) < 1" "1 < length (VfdCache dfs_state)"
    by (simp_all add: dfs_state_def)
  have d: "\<not> IsLocalFile dfs_state 1" "rv (kernel dfs_state (length (trace dfs_state))) = -1"
    "trace dfs_state = []"
    by (simp_all add: dfs_state_def IsLocalFile_def vfdP_def mk_vfd_def)
  from C10_HdfsFileClose[OF h, of 0 dfs_state] d show ?thesis
    by auto
qed


subsection \<open>Facts about reopening\<close>

lemma Insert_fields [simp]:
  "fd (vfdP (Insert f s) x) = fd (vfdP s x)"
  "fdstate (vfdP (Insert f s) x) = fdstate (vfdP s x)"
  "create_subid (vfdP (Insert f s) x) = create_subid (vfdP s x)"
  "nextFree (vfdP (Insert f s) x) = nextFree (vfdP s x)"
  "seekPos (vfdP (Insert f s) x) = seekPos (vfdP s x)"
  "fileName (vfdP (Insert f s) x) = fileName (vfdP s x)"
  "fileFlags (vfdP (Insert f s) x) = fileFlags (vfdP s x)"
  "fileMode (vfdP (Insert f s) x) = fileMode (vfdP s x)"
  "hFS (vfdP (Insert f s) x) = hFS (vfdP s x)"
  "hFile (vfdP (Insert f s) x) = hFile (vfdP s x)"
  "hProtocol (vfdP (Insert f s) x) = hProtocol (vfdP s x)"
  unfolding Insert_def Let_def
  by (simp_all add: field_set_vfd[where F=fd] field_set_vfd[where F=fdstate]
      field_set_vfd[where F=create_subid] field_set_vfd[where F=nextFree]
      field_set_vfd[where F=seekPos] field_set_vfd[where F=fileName]
      field_set_vfd[where F=fileFlags] field_set_vfd[where F=fileMode]
      field_set_vfd[where F=hFS] field_set_vfd[where F=hFile] field_set_vfd[where F=hProtocol])

lemma Insert_locality [simp]:
  "IsLocalFile (Insert f s) x = IsLocalFile s x"
  "FileIsNotOpen (Insert f s) x = FileIsNotOpen s x"
  by (simp_all add: IsLocalFile_def FileIsNotOpen_def)

lemma Insert_mru:
  "0 < f \<Longrightarrow> f < length (VfdCache s) \<Longrightarrow> lruLessRecently (vfdP (Insert f s) 0) = f"
  by (auto simp: Insert_def Let_def vfdP_set_vfd)

lemma BasicOpenFile_frame:
  "BasicOpenFile n fl m s = (r, s') \<Longrightarrow>
     length (VfdCache s') = length (VfdCache s) \<and> kernel s' = kernel s
     \<and> allocatedDescs s' = allocatedDescs s \<and> max_safe_fds s' = max_safe_fds s
     \<and> nfile s' \<le> nfile s"
proof (induction n fl m s arbitrary: r s' rule: BasicOpenFile.induct)
  case (1 fname flags mode s)
  let ?s1 = "snd (syscall (SysOpen fname flags mode) s)"
  let ?s3 = "(elog ''LOG'' ''out of file handles: release and retry'' ?s1)\<lparr>errno := ENONE\<rparr>"
  show ?case
  proof (cases "rv (kernel s (length (trace s))) \<ge> 0 \<or> \<not> (errno ?s1 = EMFILE \<or> errno ?s1 = ENFILE)")
    case True
    with "1.prems" show ?thesis
      by (subst (asm) BasicOpenFile.simps) (auto simp: split_def Let_def split: if_splits)
  next
    case False
    obtain q s4 where rel: "ReleaseLruFile ?s3 = (q, s4)" by (cases "ReleaseLruFile ?s3")
    note b = ReleaseLruFile_budget[OF rel]
    show ?thesis
    proof (cases "q = Inr True")
      case True
      with False rel "1.prems" have rec: "BasicOpenFile fname flags mode s4 = (r, s')"
        by (subst (asm) BasicOpenFile.simps) (auto simp: split_def Let_def split: if_splits)
      have "length (VfdCache s') = length (VfdCache s4) \<and> kernel s' = kernel s4
         \<and> allocatedDescs s' = allocatedDescs s4 \<and> max_safe_fds s' = max_safe_fds s4
         \<and> nfile s' \<le> nfile s4"
        apply (rule "1.IH"[OF _ _ _ _ _ _ _ _ _ rec])
        using False rel True by (auto simp: split_def intro: prod.collapse)
      then show ?thesis using b True by auto
    next
      case F2: False
      with False rel "1.prems" have "s' = s4 \<or> s' = s4\<lparr>errno := errno ?s1\<rparr>"
        by (subst (asm) BasicOpenFile.simps)
           (auto simp: split_def Let_def split: if_splits sum.splits bool.splits)
      then show ?thesis using b by (auto split: if_splits)
    qed
  qed
qed

lemma release_until_headroom_frame:
  "release_until_headroom s = (r, s') \<Longrightarrow>
     length (VfdCache s') = length (VfdCache s) \<and> kernel s' = kernel s
     \<and> allocatedDescs s' = allocatedDescs s \<and> max_safe_fds s' = max_safe_fds s
     \<and> nfile s' \<le> nfile s
     \<and> (r = Inr () \<longrightarrow> nfile s' + numAllocatedDescs s' < max_safe_fds s' \<or> nfile s' \<le> 0)"
proof (induction s arbitrary: r s' rule: release_until_headroom.induct)
  case (1 s)
  show ?case
  proof (cases "nfile s + numAllocatedDescs s \<ge> max_safe_fds s")
    case False
    with "1.prems" show ?thesis
      by (subst (asm) release_until_headroom.simps) auto
  next
    case True
    obtain q s1 where rel: "ReleaseLruFile s = (q, s1)" by (cases "ReleaseLruFile s")
    note b = ReleaseLruFile_budget[OF rel]
    show ?thesis
    proof (cases "q = Inr True")
      case T: True
      with True rel "1.prems" have rec: "release_until_headroom s1 = (r, s')"
        by (subst (asm) release_until_headroom.simps) auto
      have "length (VfdCache s') = length (VfdCache s1) \<and> kernel s' = kernel s1
         \<and> allocatedDescs s' = allocatedDescs s1 \<and> max_safe_fds s' = max_safe_fds s1
         \<and> nfile s' \<le> nfile s1
         \<and> (r = Inr () \<longrightarrow> nfile s' + numAllocatedDescs s' < max_safe_fds s' \<or> nfile s' \<le> 0)"
        apply (rule "1.IH"[OF _ _ _ _ rec])
        using True rel T by auto
      then show ?thesis using b T by auto
    next
      case F: False
      with True rel "1.prems" have "s' = s1 \<and> (r = Inr () \<longrightarrow> q = Inr False)"
        by (subst (asm) release_until_headroom.simps)
           (auto split: sum.splits bool.splits)
      then show ?thesis using b by (auto split: if_splits)
    qed
  qed
qed

lemma LruInsert_seek_frame:
  "LruInsert_seek f s = (r, s') \<Longrightarrow>
     VfdCache s' = VfdCache s \<and> kernel s' = kernel s \<and> nfile s' = nfile s
     \<and> allocatedDescs s' = allocatedDescs s \<and> max_safe_fds s' = max_safe_fds s"
  by (auto simp: LruInsert_seek_def Let_def split_def split: if_splits)

lemma LruInsert_seek_ret:
  "LruInsert_seek f s = (Some r, s') \<Longrightarrow> r = -1"
  by (auto simp: LruInsert_seek_def Let_def split_def split: if_splits)

lemma FileIsNotOpen_local: "FileIsNotOpen s f \<Longrightarrow> IsLocalFile s f"
  by (simp add: FileIsNotOpen_def IsLocalFile_def)

lemma locality_frame [simp]:
  "IsLocalFile (elog l m s) f = IsLocalFile s f"
  "FileIsNotOpen (elog l m s) f = FileIsNotOpen s f"
  "IsLocalFile (snd (syscall c s)) f = IsLocalFile s f"
  "FileIsNotOpen (snd (syscall c s)) f = FileIsNotOpen s f"
  "IsLocalFile (s\<lparr>nfile := n\<rparr>) f = IsLocalFile s f"
  "FileIsNotOpen (s\<lparr>nfile := n\<rparr>) f = FileIsNotOpen s f"
  by (simp_all add: IsLocalFile_def FileIsNotOpen_def)

lemma LruInsert_success:
  assumes no: "FileIsNotOpen s f" and inside: "f < length (VfdCache s)"
    and ok: "LruInsert f s = (Inr 0, s')"
  shows "0 \<le> fd (vfdP s' f) \<and> length (VfdCache s') = length (VfdCache s)"
proof -
  let ?s0 = "elog ''LOG'' ''reopen file'' s"
  have loc: "IsLocalFile ?s0 f" using no by (simp add: FileIsNotOpen_local)
  obtain q1 s1 where r1: "release_until_headroom ?s0 = (q1, s1)" by (cases "release_until_headroom ?s0")
  obtain q2 s2 where r2: "BasicOpenFile (fileName (vfdP s1 f)) (fileFlags (vfdP s1 f)) (fileMode (vfdP s1 f)) s1 = (q2, s2)"
    by (cases "BasicOpenFile (fileName (vfdP s1 f)) (fileFlags (vfdP s1 f)) (fileMode (vfdP s1 f)) s1")
  have l1: "length (VfdCache s1) = length (VfdCache s)"
    using release_until_headroom_frame[OF r1] by simp
  have l2: "length (VfdCache s2) = length (VfdCache s)"
    using BasicOpenFile_frame[OF r2] l1 by simp
  from ok no loc r1 r2 obtain newfd where q: "q1 = Inr ()" "q2 = Inr newfd" "0 \<le> newfd"
    by (auto simp: LruInsert_def LruInsert_open_def Let_def vfdP_set_vfd l2 inside
        split: sum.splits option.splits if_splits prod.splits)
  define s3 where "s3 = (set_vfd f (\<lambda>v. v\<lparr>fd := newfd\<rparr>) s2)\<lparr>nfile := nfile (set_vfd f (\<lambda>v. v\<lparr>fd := newfd\<rparr>) s2) + 1\<rparr>"
  have o: "LruInsert_open f ?s0 = (Inr None, s3)"
    using loc r1 r2 q l2 inside by (simp add: LruInsert_open_def Let_def vfdP_set_vfd s3_def)
  obtain x s4 where sk: "LruInsert_seek f s3 = (x, s4)" by (cases "LruInsert_seek f s3")
  have c4: "VfdCache s4 = VfdCache s3" using LruInsert_seek_frame[OF sk] by simp
  have v4: "vfdP s4 y = vfdP s3 y" for y using c4 by (simp add: vfdP_def)
  from ok no o sk LruInsert_seek_ret[of f s3 _ s4]
  have s': "s' = (if IsLocalFile s4 f then Insert f s4 else s4)"
    by (auto simp: LruInsert_def split: option.splits)
  have "fd (vfdP s3 f) = newfd" using l2 inside by (simp add: s3_def vfdP_set_vfd)
  moreover have "length (VfdCache s3) = length (VfdCache s)" using l2 by (simp add: s3_def)
  ultimately show ?thesis using q(3) s' v4 c4 by simp
qed

lemma LruInsert_open_ret:
  "LruInsert_open f s = (Inr (Some r), s') \<Longrightarrow> r < 0"
  unfolding LruInsert_open_def Let_def
  by (auto split: if_splits sum.splits prod.splits)

lemma LruInsert_ret:
  assumes "LruInsert f s = (Inr rc, s')"
  shows "rc \<le> 0"
proof (cases "FileIsNotOpen s f")
  case False
  with assms show ?thesis by (simp add: LruInsert_def)
next
  case True
  obtain q s1 where o: "LruInsert_open f (elog ''LOG'' ''reopen file'' s) = (q, s1)"
    by (cases "LruInsert_open f (elog ''LOG'' ''reopen file'' s)")
  obtain x s2 where k: "LruInsert_seek f s1 = (x, s2)" by (cases "LruInsert_seek f s1")
  from assms True o k LruInsert_open_ret[of f "elog ''LOG'' ''reopen file'' s" rc s1] LruInsert_seek_ret[of f s1 rc s2]
  show ?thesis
    by (auto simp: LruInsert_def split: sum.splits option.splits)
qed

lemma FileAccess_not_open:
  "FileIsNotOpen s f \<Longrightarrow> FileAccess f s = LruInsert f s"
  by (auto simp: FileAccess_def split: prod.splits sum.splits)

text \<open>What a reopen calls: the entry's name, flags and mode survive the releases before it.\<close>

lemma LruDelete_opening:
  "LruDelete f s = (r, s') \<Longrightarrow>
     (\<exists>t. trace s' = trace s @ t)
     \<and> (\<forall>g. fileName (vfdP s' g) = fileName (vfdP s g)
            \<and> fileFlags (vfdP s' g) = fileFlags (vfdP s g)
            \<and> fileMode (vfdP s' g) = fileMode (vfdP s g))"
  unfolding LruDelete_def Let_def
  by (auto split: if_splits prod.splits dest!: syscall_eqD
      simp: field_set_vfd[where F=fileName] field_set_vfd[where F=fileFlags]
        field_set_vfd[where F=fileMode])

lemma ReleaseLruFile_opening:
  "ReleaseLruFile s = (r, s') \<Longrightarrow>
     (\<exists>t. trace s' = trace s @ t)
     \<and> (\<forall>g. fileName (vfdP s' g) = fileName (vfdP s g)
            \<and> fileFlags (vfdP s' g) = fileFlags (vfdP s g)
            \<and> fileMode (vfdP s' g) = fileMode (vfdP s g))"
  by (auto simp: ReleaseLruFile_def split: if_splits prod.splits sum.splits
      dest!: LruDelete_opening)

lemma release_until_headroom_opening:
  "release_until_headroom s = (r, s') \<Longrightarrow>
     (\<exists>t. trace s' = trace s @ t)
     \<and> (\<forall>g. fileName (vfdP s' g) = fileName (vfdP s g)
            \<and> fileFlags (vfdP s' g) = fileFlags (vfdP s g)
            \<and> fileMode (vfdP s' g) = fileMode (vfdP s g))"
proof (induction s arbitrary: r s' rule: release_until_headroom.induct)
  case (1 s)
  show ?case
  proof (cases "nfile s + numAllocatedDescs s \<ge> max_safe_fds s")
    case False
    with "1.prems" show ?thesis
      by (subst (asm) release_until_headroom.simps) auto
  next
    case True
    obtain q s1 where rel: "ReleaseLruFile s = (q, s1)" by (cases "ReleaseLruFile s")
    note b = ReleaseLruFile_opening[OF rel]
    show ?thesis
    proof (cases "q = Inr True")
      case T: True
      with True rel "1.prems" have rec: "release_until_headroom s1 = (r, s')"
        by (subst (asm) release_until_headroom.simps) auto
      have "(\<exists>t. trace s' = trace s1 @ t)
        \<and> (\<forall>g. fileName (vfdP s' g) = fileName (vfdP s1 g)
            \<and> fileFlags (vfdP s' g) = fileFlags (vfdP s1 g)
            \<and> fileMode (vfdP s' g) = fileMode (vfdP s1 g))"
        apply (rule "1.IH"[OF _ _ _ _ rec])
        using True rel T by auto
      then show ?thesis using b by auto
    next
      case F: False
      with True rel "1.prems" have "s' = s1"
        by (subst (asm) release_until_headroom.simps)
           (auto split: sum.splits bool.splits)
      then show ?thesis using b by simp
    qed
  qed
qed

lemma BasicOpenFile_opens:
  "BasicOpenFile n fl m s = (r, s') \<Longrightarrow>
     \<exists>i. length (trace s) \<le> i \<and> i < length (trace s')
        \<and> fst (trace s' ! i) = SysOpen n fl m
        \<and> (\<forall>fdn. r = Inr fdn \<and> 0 \<le> fdn \<longrightarrow> fdn = rv (kernel s i))"
proof (induction n fl m s arbitrary: r s' rule: BasicOpenFile.induct)
  case (1 fname flags mode s)
  let ?s1 = "snd (syscall (SysOpen fname flags mode) s)"
  let ?s3 = "(elog ''LOG'' ''out of file handles: release and retry'' ?s1)\<lparr>errno := ENONE\<rparr>"
  have t1: "trace ?s1 = trace s @ [(SysOpen fname flags mode, VfdCache s)]" by simp
  show ?case
  proof (cases "rv (kernel s (length (trace s))) \<ge> 0 \<or> \<not> (errno ?s1 = EMFILE \<or> errno ?s1 = ENFILE)")
    case True
    with "1.prems" have "s' = ?s1 \<and> (\<forall>fdn. r = Inr fdn \<and> 0 \<le> fdn \<longrightarrow> fdn = rv (kernel s (length (trace s))))"
      by (subst (asm) BasicOpenFile.simps) (auto simp: split_def Let_def split: if_splits)
    then show ?thesis
      by (intro exI[of _ "length (trace s)"]) simp
  next
    case False
    obtain q s4 where rel: "ReleaseLruFile ?s3 = (q, s4)" by (cases "ReleaseLruFile ?s3")
    from ReleaseLruFile_opening[OF rel] obtain t where
      t4: "trace s4 = trace s @ [(SysOpen fname flags mode, VfdCache s)] @ [(Elog ''LOG'' ''out of file handles: release and retry'', VfdCache s)] @ t"
      by auto
    have k4: "kernel s4 = kernel s" using ReleaseLruFile_budget[OF rel] by simp
    show ?thesis
    proof (cases "q = Inr True")
      case True
      with False rel "1.prems" have rec: "BasicOpenFile fname flags mode s4 = (r, s')"
        by (subst (asm) BasicOpenFile.simps) (auto simp: split_def Let_def split: if_splits)
      have "\<exists>i. length (trace s4) \<le> i \<and> i < length (trace s')
        \<and> fst (trace s' ! i) = SysOpen fname flags mode
        \<and> (\<forall>fdn. r = Inr fdn \<and> 0 \<le> fdn \<longrightarrow> fdn = rv (kernel s4 i))"
        apply (rule "1.IH"[OF _ _ _ _ _ _ _ _ _ rec])
        using False rel True by (auto simp: split_def intro: prod.collapse)
      then obtain i where "length (trace s4) \<le> i" "i < length (trace s')"
        "fst (trace s' ! i) = SysOpen fname flags mode"
        "\<forall>fdn. r = Inr fdn \<and> 0 \<le> fdn \<longrightarrow> fdn = rv (kernel s4 i)" by blast
      then show ?thesis using t4 k4 by (intro exI[of _ i]) simp
    next
      case F2: False
      with False rel "1.prems" have "(s' = s4 \<or> s' = s4\<lparr>errno := errno ?s1\<rparr>)
          \<and> (\<forall>fdn. r = Inr fdn \<longrightarrow> fdn < 0)"
        by (subst (asm) BasicOpenFile.simps)
           (auto simp: split_def Let_def split: if_splits sum.splits bool.splits)
      then have "trace s' = trace s4" "\<forall>fdn. r = Inr fdn \<longrightarrow> fdn < 0" by auto
      then show ?thesis using t4
        by (intro exI[of _ "length (trace s)"]) auto
    qed
  qed
qed

lemma LruInsert_seek_trace:
  "LruInsert_seek f s = (r, s') \<Longrightarrow> \<exists>t. trace s' = trace s @ t"
  by (auto simp: LruInsert_seek_def Let_def split_def split: if_splits)

lemma LruInsert_opens:
  assumes no: "FileIsNotOpen s f" and inside: "f < length (VfdCache s)"
    and ok: "LruInsert f s = (Inr rc, s')"
  shows "\<exists>i. length (trace s) \<le> i \<and> i < length (trace s')
        \<and> fst (trace s' ! i) = SysOpen (fileName (vfdP s f)) (fileFlags (vfdP s f)) (fileMode (vfdP s f))
        \<and> (rc = 0 \<longrightarrow> fd (vfdP s' f) = rv (kernel s i))"
proof -
  let ?s0 = "elog ''LOG'' ''reopen file'' s"
  let ?call = "SysOpen (fileName (vfdP s f)) (fileFlags (vfdP s f)) (fileMode (vfdP s f))"
  have loc: "IsLocalFile ?s0 f" using no by (simp add: FileIsNotOpen_local)
  obtain q1 s1 where r1: "release_until_headroom ?s0 = (q1, s1)" by (cases "release_until_headroom ?s0")
  obtain q2 s2 where r2: "BasicOpenFile (fileName (vfdP s1 f)) (fileFlags (vfdP s1 f)) (fileMode (vfdP s1 f)) s1 = (q2, s2)"
    by (cases "BasicOpenFile (fileName (vfdP s1 f)) (fileFlags (vfdP s1 f)) (fileMode (vfdP s1 f)) s1")
  have l1: "length (VfdCache s1) = length (VfdCache s)" and k1: "kernel s1 = kernel s"
    using release_until_headroom_frame[OF r1] by simp_all
  have l2: "length (VfdCache s2) = length (VfdCache s)"
    using BasicOpenFile_frame[OF r2] l1 by simp
  from release_until_headroom_opening[OF r1]
  have n1: "fileName (vfdP s1 f) = fileName (vfdP s f)" "fileFlags (vfdP s1 f) = fileFlags (vfdP s f)"
    "fileMode (vfdP s1 f) = fileMode (vfdP s f)" and len1: "length (trace s) \<le> length (trace s1)"
    by auto
  from ok no loc r1 r2 obtain newfd where q: "q1 = Inr ()" "q2 = Inr newfd"
    by (auto simp: LruInsert_def LruInsert_open_def Let_def
        split: sum.splits option.splits if_splits prod.splits)
  from BasicOpenFile_opens[OF r2] n1 k1 q obtain i where
    i: "length (trace s1) \<le> i" "i < length (trace s2)" "fst (trace s2 ! i) = ?call"
      "0 \<le> newfd \<longrightarrow> newfd = rv (kernel s i)" by auto
  define s3 where "s3 = set_vfd f (\<lambda>v. v\<lparr>fd := newfd\<rparr>) s2"
  have f3: "fd (vfdP s3 f) = newfd" using l2 inside by (simp add: s3_def vfdP_set_vfd)
  show ?thesis
  proof (cases "newfd < 0")
    case True
    then have "LruInsert_open f ?s0 = (Inr (Some newfd), s3)"
      using loc r1 r2 q f3 by (simp add: LruInsert_open_def Let_def s3_def)
    with ok no have "s' = s3" "rc = newfd" by (simp_all add: LruInsert_def)
    then show ?thesis using i len1 True by (intro exI[of _ i]) (simp add: s3_def)
  next
    case False
    define s3' where "s3' = s3\<lparr>nfile := nfile s3 + 1\<rparr>"
    have o: "LruInsert_open f ?s0 = (Inr None, s3')"
      using loc r1 r2 q f3 False by (simp add: LruInsert_open_def Let_def s3_def s3'_def)
    obtain x s4 where sk: "LruInsert_seek f s3' = (x, s4)" by (cases "LruInsert_seek f s3'")
    from LruInsert_seek_trace[OF sk] obtain t where t: "trace s4 = trace s2 @ t"
      by (auto simp: s3'_def s3_def)
    have c4: "VfdCache s4 = VfdCache s3'" using LruInsert_seek_frame[OF sk] by simp
    have v4: "vfdP s4 y = vfdP s3' y" for y using c4 by (simp add: vfdP_def)
    have s': "trace s' = trace s4" "rc = 0 \<longrightarrow> fd (vfdP s' f) = fd (vfdP s4 f)"
      using ok no o sk by (auto simp: LruInsert_def split: option.splits if_splits)
    have "fd (vfdP s4 f) = newfd" using v4 f3 by (simp add: s3'_def)
    then show ?thesis using i len1 False s' t
      by (intro exI[of _ i]) (simp add: nth_append)
  qed
qed

lemma LruInsert_kernel:
  assumes "LruInsert f s = (r, s')"
  shows "kernel s' = kernel s"
proof (cases "FileIsNotOpen s f")
  case False
  with assms show ?thesis by (auto simp: LruInsert_def split: if_splits)
next
  case True
  let ?s0 = "elog ''LOG'' ''reopen file'' s"
  have loc: "IsLocalFile ?s0 f" using True by (simp add: FileIsNotOpen_local)
  obtain q1 s1 where r1: "release_until_headroom ?s0 = (q1, s1)" by (cases "release_until_headroom ?s0")
  obtain q2 s2 where r2: "BasicOpenFile (fileName (vfdP s1 f)) (fileFlags (vfdP s1 f)) (fileMode (vfdP s1 f)) s1 = (q2, s2)"
    by (cases "BasicOpenFile (fileName (vfdP s1 f)) (fileFlags (vfdP s1 f)) (fileMode (vfdP s1 f)) s1")
  have k1: "kernel s1 = kernel s" using release_until_headroom_frame[OF r1] by simp
  have k2: "kernel s2 = kernel s" using BasicOpenFile_frame[OF r2] k1 by simp
  obtain q3 s3 where o: "LruInsert_open f ?s0 = (q3, s3)" by (cases "LruInsert_open f ?s0")
  have k3: "kernel s3 = kernel s"
    using o loc r1 r2 k1 k2
    by (auto simp: LruInsert_open_def Let_def split: sum.splits if_splits)
  obtain x s4 where sk: "LruInsert_seek f s3 = (x, s4)" by (cases "LruInsert_seek f s3")
  have k4: "kernel s4 = kernel s" using LruInsert_seek_frame[OF sk] k3 by simp
  from assms True o sk k3 k4 show ?thesis
    by (auto simp: LruInsert_def split: sum.splits option.splits if_splits)
qed


subsection \<open>Seeking in a local file\<close>

text \<open>
  An entry that is not physically open, at position 5; the environment is a parameter.
\<close>

definition closed_entry :: "(nat \<Rightarrow> sysres) \<Rightarrow> state" where
  "closed_entry k =
     \<lparr>VfdCache = [mk_vfd (-1) 0 0 0 None, mk_vfd (-1) 0 0 5 (Some ''base/1/gone'')],
      nfile = 0, allocatedDescs = [],
      RecentRemoteAllocatedDesc = -1, freeDescs = no_descs,
      HdfsGlobalContext = 0, HdfsFsTable = None, max_safe_fds = 32, max_files_per_process = 1000,
      errno = ENONE,
      kernel = k,
      trace = []\<rparr>"

text \<open>
  Claim C8 says that the value returned is the resulting position. For \<^verbatim>\<open>SEEK_END\<close> on an
  entry that is not physically open and whose file cannot be opened again, \<^verbatim>\<open>FileSeek\<close>
  returns \<open>-1\<close>, the code of the failed reopen, while the recorded position is still 5.
\<close>

theorem C8_failed_reopen_returns_code:
  "IsLocalFile (closed_entry (\<lambda>n. \<lparr>rv = -1, rerrno = ENOENT, rstrs = []\<rparr>)) 1
   \<and> fst (FileSeek 1 0 SEEK_END (closed_entry (\<lambda>n. \<lparr>rv = -1, rerrno = ENOENT, rstrs = []\<rparr>))) = Inr (-1)
   \<and> seekPos (vfdP (snd (FileSeek 1 0 SEEK_END (closed_entry (\<lambda>n. \<lparr>rv = -1, rerrno = ENOENT, rstrs = []\<rparr>)))) 1) = 5"
  by (simp add: closed_entry_def FileSeek_def LocalFileSeek_def FileAccess_def
      LruInsert_def LruInsert_open_def release_until_headroom.simps BasicOpenFile.simps
      IsLocalFile_def FileIsNotOpen_def vfdP_def mk_vfd_def VFD_CLOSED_def numAllocatedDescs_def
      syscall_def elog_def set_vfd_def Let_def SEEK_END_def SEEK_SET_def SEEK_CUR_def)

text \<open>
  Claim C8, amended. \<^verbatim>\<open>FileSeek\<close> on a local entry. On an entry that is physically open no
  system call is made for \<^verbatim>\<open>SEEK_SET\<close> to the position already recorded, nor for
  \<^verbatim>\<open>SEEK_CUR\<close> with offset 0 when the position is known; in every other case exactly one
  \<^verbatim>\<open>lseek\<close> is made and its answer becomes the position and the result. On an entry that
  is not physically open \<^verbatim>\<open>SEEK_SET\<close> and \<^verbatim>\<open>SEEK_CUR\<close> make no call and only store
  \<open>offset\<close> and \<open>seekPos + offset\<close>, the sum taken in 64 bits (it is the exact sum when
  that fits). \<^verbatim>\<open>SEEK_END\<close> on such an entry reopens the file: unless an error is raised,
  \<^verbatim>\<open>open\<close> is called with the entry's name, flags and mode; when the reopen succeeds the
  entry holds the descriptor that \<^verbatim>\<open>open\<close> answered, one \<^verbatim>\<open>lseek\<close> on it follows, and
  its answer becomes the position and the result; when the reopen fails its negative code is
  the result, not a position.
\<close>

theorem C8_FileSeek:
  fixes s :: state and "file" :: nat and offset whence :: int
  defines "pos \<equiv> seekPos (vfdP s file)"
  defines "res \<equiv> FileSeek file offset whence s"
  assumes inside: "file < length (VfdCache s)" and local: "IsLocalFile s file"
  shows
   "(\<not> FileIsNotOpen s file \<and> whence = SEEK_SET \<and> pos = offset \<longrightarrow> res = (Inr offset, s))
  \<and> (\<not> FileIsNotOpen s file \<and> whence = SEEK_CUR \<and> offset = 0 \<and> pos \<noteq> FileUnknownPos \<longrightarrow>
        res = (Inr pos, s))
  \<and> (\<not> FileIsNotOpen s file
       \<and> (whence = SEEK_SET \<and> pos \<noteq> offset
          \<or> whence = SEEK_CUR \<and> (offset \<noteq> 0 \<or> pos = FileUnknownPos)
          \<or> whence = SEEK_END) \<longrightarrow>
        trace (snd res) = trace s @ [(SysLseek (fd (vfdP s file)) offset whence, VfdCache s)]
        \<and> seekPos (vfdP (snd res) file) = rv (kernel s (length (trace s)))
        \<and> fst res = Inr (rv (kernel s (length (trace s)))))
  \<and> (FileIsNotOpen s file \<and> whence = SEEK_SET \<longrightarrow>
        res = (Inr offset, set_vfd file (\<lambda>v. v\<lparr>seekPos := offset\<rparr>) s))
  \<and> (FileIsNotOpen s file \<and> whence = SEEK_CUR \<longrightarrow>
        res = (Inr (int64 (pos + offset)), set_vfd file (\<lambda>v. v\<lparr>seekPos := int64 (pos + offset)\<rparr>) s)
        \<and> (- (2 ^ 63) \<le> pos + offset \<and> pos + offset < 2 ^ 63 \<longrightarrow> int64 (pos + offset) = pos + offset))
  \<and> (FileIsNotOpen s file \<and> whence = SEEK_END \<longrightarrow>
        (case LruInsert file s of
           (Inl e, s1) \<Rightarrow> res = (Inl e, s1)
         | (Inr rc, s1) \<Rightarrow>
             (\<exists>i. length (trace s) \<le> i \<and> i < length (trace s1)
                 \<and> fst (trace s1 ! i) = SysOpen (fileName (vfdP s file)) (fileFlags (vfdP s file))
                                           (fileMode (vfdP s file))
                 \<and> (rc = 0 \<longrightarrow> fd (vfdP s1 file) = rv (kernel s i)))
             \<and> (if rc \<noteq> 0 then rc < 0 \<and> res = (Inr rc, s1)
                else 0 \<le> fd (vfdP s1 file)
                   \<and> trace (snd res) = trace s1 @ [(SysLseek (fd (vfdP s1 file)) offset whence, VfdCache s1)]
                   \<and> seekPos (vfdP (snd res) file) = rv (kernel s (length (trace s1)))
                   \<and> fst res = Inr (rv (kernel s (length (trace s1)))))))"
proof -
  have w: "SEEK_SET \<noteq> SEEK_CUR" "SEEK_SET \<noteq> SEEK_END" "SEEK_CUR \<noteq> SEEK_END"
    "SEEK_CUR \<noteq> SEEK_SET" "SEEK_END \<noteq> SEEK_SET" "SEEK_END \<noteq> SEEK_CUR"
    by (simp_all add: SEEK_SET_def SEEK_CUR_def SEEK_END_def)
  have res: "res = LocalFileSeek file offset whence s"
    using local by (simp add: res_def FileSeek_def)
  have c1: "\<not> FileIsNotOpen s file \<and> whence = SEEK_SET \<and> pos = offset \<longrightarrow> res = (Inr offset, s)"
    by (simp add: res pos_def LocalFileSeek_def)
  have c2: "\<not> FileIsNotOpen s file \<and> whence = SEEK_CUR \<and> offset = 0 \<and> pos \<noteq> FileUnknownPos \<longrightarrow>
        res = (Inr pos, s)"
    by (simp add: res pos_def LocalFileSeek_def w)
  have c3: "\<not> FileIsNotOpen s file
       \<and> (whence = SEEK_SET \<and> pos \<noteq> offset
          \<or> whence = SEEK_CUR \<and> (offset \<noteq> 0 \<or> pos = FileUnknownPos)
          \<or> whence = SEEK_END) \<longrightarrow>
        trace (snd res) = trace s @ [(SysLseek (fd (vfdP s file)) offset whence, VfdCache s)]
        \<and> seekPos (vfdP (snd res) file) = rv (kernel s (length (trace s)))
        \<and> fst res = Inr (rv (kernel s (length (trace s))))"
    using inside
    by (auto simp: res pos_def LocalFileSeek_def w Let_def split_def vfdP_set_vfd)
  have c4: "FileIsNotOpen s file \<and> whence = SEEK_SET \<longrightarrow>
        res = (Inr offset, set_vfd file (\<lambda>v. v\<lparr>seekPos := offset\<rparr>) s)"
    using inside by (simp add: res LocalFileSeek_def Let_def vfdP_set_vfd)
  have c5: "FileIsNotOpen s file \<and> whence = SEEK_CUR \<longrightarrow>
        res = (Inr (int64 (pos + offset)), set_vfd file (\<lambda>v. v\<lparr>seekPos := int64 (pos + offset)\<rparr>) s)"
    using inside
    by (auto simp: res pos_def LocalFileSeek_def Let_def vfdP_set_vfd w set_vfd_def vfdP_def)
  have c5': "- (2 ^ 63) \<le> pos + offset \<and> pos + offset < 2 ^ 63 \<longrightarrow> int64 (pos + offset) = pos + offset"
    by (simp add: int64_in_range)
  have c6: "FileIsNotOpen s file \<and> whence = SEEK_END \<longrightarrow>
        (case LruInsert file s of
           (Inl e, s1) \<Rightarrow> res = (Inl e, s1)
         | (Inr rc, s1) \<Rightarrow>
             (\<exists>i. length (trace s) \<le> i \<and> i < length (trace s1)
                 \<and> fst (trace s1 ! i) = SysOpen (fileName (vfdP s file)) (fileFlags (vfdP s file))
                                           (fileMode (vfdP s file))
                 \<and> (rc = 0 \<longrightarrow> fd (vfdP s1 file) = rv (kernel s i)))
             \<and> (if rc \<noteq> 0 then rc < 0 \<and> res = (Inr rc, s1)
                else 0 \<le> fd (vfdP s1 file)
                   \<and> trace (snd res) = trace s1 @ [(SysLseek (fd (vfdP s1 file)) offset whence, VfdCache s1)]
                   \<and> seekPos (vfdP (snd res) file) = rv (kernel s (length (trace s1)))
                   \<and> fst res = Inr (rv (kernel s (length (trace s1))))))"
  proof (intro impI, elim conjE)
    assume no: "FileIsNotOpen s file" and e: "whence = SEEK_END"
    obtain q s1 where l: "LruInsert file s = (q, s1)" by (cases "LruInsert file s")
    have r: "res = (case (q, s1) of
              (Inl e, s1) \<Rightarrow> (Inl e, s1)
            | (Inr returnCode, s1) \<Rightarrow>
                if returnCode < 0 then (Inr returnCode, s1)
                else
                  let (r, s2) = syscall (SysLseek (fd (vfdP s1 file)) offset SEEK_END) s1;
                      s3 = set_vfd file (\<lambda>v. v\<lparr>seekPos := rv r\<rparr>) s2
                  in (Inr (seekPos (vfdP s3 file)), s3))"
      using no e l by (simp add: res LocalFileSeek_def w FileAccess_not_open)
    show "case LruInsert file s of
           (Inl e, s1) \<Rightarrow> res = (Inl e, s1)
         | (Inr rc, s1) \<Rightarrow>
             (\<exists>i. length (trace s) \<le> i \<and> i < length (trace s1)
                 \<and> fst (trace s1 ! i) = SysOpen (fileName (vfdP s file)) (fileFlags (vfdP s file))
                                           (fileMode (vfdP s file))
                 \<and> (rc = 0 \<longrightarrow> fd (vfdP s1 file) = rv (kernel s i)))
             \<and> (if rc \<noteq> 0 then rc < 0 \<and> res = (Inr rc, s1)
                else 0 \<le> fd (vfdP s1 file)
                   \<and> trace (snd res) = trace s1 @ [(SysLseek (fd (vfdP s1 file)) offset whence, VfdCache s1)]
                   \<and> seekPos (vfdP (snd res) file) = rv (kernel s (length (trace s1)))
                   \<and> fst res = Inr (rv (kernel s (length (trace s1)))))"
    proof (cases q)
      case (Inl err)
      then show ?thesis using l r by simp
    next
      case (Inr rc)
      note op = LruInsert_opens[OF no inside l[unfolded Inr]]
      have k1: "kernel s1 = kernel s" using LruInsert_kernel[OF l] .
      show ?thesis
      proof (cases "rc = 0")
        case False
        with LruInsert_ret[of "file" s rc s1] l Inr have "rc < 0" by simp
        then show ?thesis using l r Inr op by simp
      next
        case True
        from LruInsert_success[OF no inside] l Inr True
        have "0 \<le> fd (vfdP s1 file)" "length (VfdCache s1) = length (VfdCache s)" by auto
        then show ?thesis using l r Inr True inside e op k1
          by (simp add: Let_def split_def vfdP_set_vfd)
      qed
    qed
  qed
  show ?thesis using c1 c2 c3 c4 c5 c5' c6 by blast
qed

theorem C8_FileSeek_witness:
  "FileSeek 1 0 SEEK_CUR ring_state = (Inr 0, ring_state)
   \<and> fst (FileSeek 1 9 SEEK_SET ring_state) = Inr 7
   \<and> seekPos (vfdP (snd (FileSeek 1 9 SEEK_SET ring_state)) 1) = 7
   \<and> fst (FileSeek 1 0 SEEK_END (closed_entry (\<lambda>n. answer (if n = 1 then 9 else 100)))) = Inr 100
   \<and> seekPos (vfdP (snd (FileSeek 1 0 SEEK_END (closed_entry (\<lambda>n. answer (if n = 1 then 9 else 100))))) 1) = 100"
proof -
  define st where "st = closed_entry (\<lambda>n. answer (if n = 1 then 9 else 100))"
  have i: "1 < length (VfdCache ring_state)" and l: "IsLocalFile ring_state 1"
    by (simp_all add: ring_state_def IsLocalFile_def vfdP_def mk_vfd_def)
  have o: "\<not> FileIsNotOpen ring_state 1" "seekPos (vfdP ring_state 1) = 0"
    "seekPos (vfdP ring_state 1) \<noteq> FileUnknownPos" "seekPos (vfdP ring_state 1) \<noteq> 9"
    "rv (kernel ring_state (length (trace ring_state))) = 7"
    by (simp_all add: ring_state_def FileIsNotOpen_def vfdP_def mk_vfd_def VFD_CLOSED_def
        FileUnknownPos_def answer_def)
  have j: "1 < length (VfdCache st)" and m: "IsLocalFile st 1" and c: "FileIsNotOpen st 1"
    by (simp_all add: st_def closed_entry_def IsLocalFile_def FileIsNotOpen_def vfdP_def mk_vfd_def
        VFD_CLOSED_def)
  have "\<exists>s1. LruInsert 1 st = (Inr 0, s1) \<and> length (trace s1) = 3"
    by (simp add: st_def closed_entry_def LruInsert_def LruInsert_open_def LruInsert_seek_def
        release_until_headroom.simps BasicOpenFile.simps Insert_def
        IsLocalFile_def FileIsNotOpen_def vfdP_def mk_vfd_def VFD_CLOSED_def numAllocatedDescs_def
        syscall_def elog_def set_vfd_def Let_def answer_def)
  then obtain s1 where r: "LruInsert 1 st = (Inr 0, s1)" "length (trace s1) = 3" by blast
  have k: "rv (kernel st 3) = 100" by (simp add: st_def closed_entry_def answer_def)
  from C8_FileSeek[OF i l, where offset=0 and whence=SEEK_CUR]
    C8_FileSeek[OF i l, where offset=9 and whence=SEEK_SET] o
  have a: "FileSeek 1 0 SEEK_CUR ring_state = (Inr 0, ring_state)
   \<and> fst (FileSeek 1 9 SEEK_SET ring_state) = Inr 7
   \<and> seekPos (vfdP (snd (FileSeek 1 9 SEEK_SET ring_state)) 1) = 7" by simp
  from C8_FileSeek[OF j m, where offset=0 and whence=SEEK_END] c r k
  have b: "fst (FileSeek 1 0 SEEK_END st) = Inr 100
   \<and> seekPos (vfdP (snd (FileSeek 1 0 SEEK_END st)) 1) = 100" by simp
  from a b show ?thesis unfolding st_def by simp
qed


subsection \<open>The LRU ring\<close>

text \<open>
  The ring as a list, least recently used entry first: following \<^verbatim>\<open>lruMoreRecently\<close>
  from entry 0 visits the list and comes back to 0, and \<^verbatim>\<open>lruLessRecently\<close> goes the
  other way.
\<close>

fun ring_links :: "state \<Rightarrow> nat \<Rightarrow> nat list \<Rightarrow> bool" where
  "ring_links s a [] = (lruMoreRecently (vfdP s a) = 0 \<and> lruLessRecently (vfdP s 0) = a)"
| "ring_links s a (v # vs) =
     (lruMoreRecently (vfdP s a) = v \<and> lruLessRecently (vfdP s v) = a \<and> ring_links s v vs)"

definition lru_ring :: "state \<Rightarrow> nat list \<Rightarrow> bool" where
  "lru_ring s vs \<longleftrightarrow>
     0 < length (VfdCache s) \<and> distinct vs \<and> 0 \<notin> set vs
     \<and> (\<forall>v \<in> set vs. v < length (VfdCache s)) \<and> ring_links s 0 vs"

lemma ring_links_cong:
  assumes "\<And>x. x = a \<or> x \<in> set vs \<Longrightarrow> lruMoreRecently (vfdP s' x) = lruMoreRecently (vfdP s x)"
    and "\<And>x. x = 0 \<or> x \<in> set vs \<Longrightarrow> lruLessRecently (vfdP s' x) = lruLessRecently (vfdP s x)"
  shows "ring_links s' a vs = ring_links s a vs"
  using assms by (induction vs arbitrary: a) auto

lemma LruDelete_other:
  "LruDelete f s = (r, s') \<Longrightarrow> x \<noteq> f \<Longrightarrow> vfdP s' x = vfdP (Delete f s) x"
  by (auto simp: LruDelete_def Let_def split_def vfdP_set_vfd split: if_splits)

lemma LruDelete_links:
  "LruDelete f s = (r, s') \<Longrightarrow>
     lruMoreRecently (vfdP s' x) = lruMoreRecently (vfdP (Delete f s) x)
     \<and> lruLessRecently (vfdP s' x) = lruLessRecently (vfdP (Delete f s) x)"
  by (auto simp: LruDelete_def Let_def split_def vfdP_set_vfd split: if_splits)

lemma LruDelete_keeps:
  "LruDelete f s = (r, s') \<Longrightarrow>
     fileName (vfdP s' x) = fileName (vfdP s x) \<and> fileFlags (vfdP s' x) = fileFlags (vfdP s x)
     \<and> fileMode (vfdP s' x) = fileMode (vfdP s x) \<and> fdstate (vfdP s' x) = fdstate (vfdP s x)
     \<and> create_subid (vfdP s' x) = create_subid (vfdP s x) \<and> nextFree (vfdP s' x) = nextFree (vfdP s x)"
  by (auto simp: LruDelete_def Let_def split_def vfdP_set_vfd split: if_splits)

lemma Delete_head:
  assumes ring: "lru_ring s (v # vs)"
  shows "lru_ring (Delete v s) vs"
    and "x \<noteq> 0 \<Longrightarrow> x \<notin> set (v # vs) \<Longrightarrow> vfdP (Delete v s) x = vfdP s x"
    and "vfdP (Delete v s) v = vfdP s v"
proof -
  from ring have v: "v \<noteq> 0" "v < length (VfdCache s)" "0 < length (VfdCache s)"
    "lruLessRecently (vfdP s v) = 0" "lruMoreRecently (vfdP s 0) = v" "v \<notin> set vs"
    "distinct vs" "0 \<notin> set vs" "\<forall>u\<in>set vs. u < length (VfdCache s)" "ring_links s v vs"
    by (auto simp: lru_ring_def)
  define M where "M = lruMoreRecently (vfdP s v)"
  have M: "M = (case vs of [] \<Rightarrow> 0 | u # us \<Rightarrow> u)" "M \<noteq> v" "M < length (VfdCache s)"
    using v by (cases vs; auto simp: M_def)+
  have nz: "0 < x" if "x \<in> set vs" for x using v(8) that by (cases "x = 0") auto
  define s1 where "s1 = set_vfd 0 (\<lambda>u. u\<lparr>lruMoreRecently := M\<rparr>) s"
  have d: "Delete v s = set_vfd M (\<lambda>u. u\<lparr>lruLessRecently := 0\<rparr>) s1"
    using v by (simp add: Delete_def Let_def s1_def M_def vfdP_set_vfd)
  show "vfdP (Delete v s) v = vfdP s v"
    using v M by (simp add: d s1_def vfdP_set_vfd)
  show "vfdP (Delete v s) x = vfdP s x" if "x \<noteq> 0" "x \<notin> set (v # vs)"
    using that v M by (cases vs) (auto simp: d s1_def vfdP_set_vfd)
  have "ring_links (Delete v s) 0 vs"
  proof (cases vs)
    case Nil
    then show ?thesis using v M by (simp add: d s1_def vfdP_set_vfd)
  next
    case (Cons u us)
    have "ring_links (Delete v s) u us = ring_links s u us"
      apply (rule ring_links_cong)
      using v M Cons nz by (auto simp: d s1_def vfdP_set_vfd)
    then show ?thesis using v M Cons by (simp add: d s1_def vfdP_set_vfd)
  qed
  then show "lru_ring (Delete v s) vs" using v by (simp add: lru_ring_def)
qed

lemma lru_ring_eq:
  assumes "lru_ring s vs" "length (VfdCache s') = length (VfdCache s)"
    and "\<And>x. lruMoreRecently (vfdP s' x) = lruMoreRecently (vfdP s x)
            \<and> lruLessRecently (vfdP s' x) = lruLessRecently (vfdP s x)"
  shows "lru_ring s' vs"
  using assms ring_links_cong[of 0 vs s' s] by (simp add: lru_ring_def)

lemma link_update_same:
  "lruMoreRecently v = a \<Longrightarrow> v\<lparr>lruMoreRecently := a\<rparr> = v"
  "lruLessRecently v = b \<Longrightarrow> v\<lparr>lruLessRecently := b\<rparr> = v"
  by (cases v; simp)+

lemma Delete_empty:
  assumes "lru_ring s []"
  shows "vfdP (Delete 0 s) x = vfdP s x"
proof -
  from assms have "lruMoreRecently (vfdP s 0) = 0" "lruLessRecently (vfdP s 0) = 0"
    by (simp_all add: lru_ring_def)
  then show ?thesis
    by (simp add: Delete_def Let_def vfdP_set_vfd link_update_same)
qed

lemma LruDelete_ring:
  assumes ring: "lru_ring s vs" and del: "LruDelete (lruMoreRecently (vfdP s 0)) s = (r, s')"
  shows "lru_ring s' (tl vs) \<and> (\<forall>x. x \<noteq> 0 \<and> x \<notin> set vs \<longrightarrow> vfdP s' x = vfdP s x)"
proof (cases vs)
  case Nil
  with ring have z: "lruMoreRecently (vfdP s 0) = 0" by (simp add: lru_ring_def)
  have d: "vfdP (Delete 0 s) x = vfdP s x" for x using ring Nil by (simp add: Delete_empty)
  from del z have del0: "LruDelete 0 s = (r, s')" by simp
  have len: "length (VfdCache s') = length (VfdCache s)" using LruDelete_budget[OF del0] by simp
  have "lru_ring s' []"
    using lru_ring_eq[of s "[]" s'] ring Nil len LruDelete_links[OF del0] d by simp
  moreover have "vfdP s' x = vfdP s x" if "x \<noteq> 0" for x
    using LruDelete_other[OF del0 that] d by simp
  ultimately show ?thesis using Nil by simp
next
  case (Cons v us)
  with ring have z: "lruMoreRecently (vfdP s 0) = v" by (simp add: lru_ring_def)
  from del z have delv: "LruDelete v s = (r, s')" by simp
  have len: "length (VfdCache s') = length (VfdCache s)" using LruDelete_budget[OF delv] by simp
  note h = Delete_head[OF ring[unfolded Cons]]
  have "lru_ring s' us"
    using lru_ring_eq[of "Delete v s" us s'] h(1) len LruDelete_links[OF delv] by simp
  moreover have "vfdP s' x = vfdP s x" if "x \<noteq> 0" "x \<notin> set vs" for x
    using LruDelete_other[OF delv, of x] h(2)[of x] that Cons by auto
  ultimately show ?thesis using Cons by simp
qed

lemma lru_ring_cache:
  "VfdCache s' = VfdCache s \<Longrightarrow> lru_ring s' vs = lru_ring s vs"
proof -
  assume c: "VfdCache s' = VfdCache s"
  then have "vfdP s' x = vfdP s x" for x by (simp add: vfdP_def)
  then have "ring_links s' 0 vs = ring_links s 0 vs" by (intro ring_links_cong) simp_all
  then show ?thesis using c by (simp add: lru_ring_def)
qed

lemma lru_ring_frame [simp]:
  "lru_ring (snd (syscall c s)) vs = lru_ring s vs"
  "lru_ring (elog l m s) vs = lru_ring s vs"
  "lru_ring (s\<lparr>errno := e\<rparr>) vs = lru_ring s vs"
  "lru_ring (s\<lparr>nfile := n\<rparr>) vs = lru_ring s vs"
  by (rule lru_ring_cache, simp)+

text \<open>
  What closing least recently used entries may touch: the ring shrinks to a part of the
  entries it had, and no entry outside the ring, entry 0 apart, changes.
\<close>

definition evicts_only :: "nat list \<Rightarrow> state \<Rightarrow> state \<Rightarrow> bool" where
  "evicts_only vs s s' \<longleftrightarrow>
     (\<exists>vs'. lru_ring s' vs' \<and> set vs' \<subseteq> set vs)
     \<and> (\<forall>x. x \<noteq> 0 \<and> x \<notin> set vs \<longrightarrow> vfdP s' x = vfdP s x)"

lemma evicts_only_refl: "lru_ring s vs \<Longrightarrow> evicts_only vs s s"
  by (auto simp: evicts_only_def)

lemma ReleaseLruFile_ring:
  assumes "lru_ring s vs" "ReleaseLruFile s = (r, s')"
  shows "lru_ring s' (if r = Inr False then vs else tl vs)
       \<and> (\<forall>x. x \<noteq> 0 \<and> x \<notin> set vs \<longrightarrow> vfdP s' x = vfdP s x)"
proof (cases "nfile s > 0")
  case False
  with assms show ?thesis by (simp add: ReleaseLruFile_def)
next
  case True
  obtain q t where d: "LruDelete (lruMoreRecently (vfdP s 0)) s = (q, t)"
    by (cases "LruDelete (lruMoreRecently (vfdP s 0)) s")
  from assms(2) True d have "s' = t" "r \<noteq> Inr False"
    by (auto simp: ReleaseLruFile_def split: sum.splits)
  then show ?thesis using LruDelete_ring[OF assms(1) d] by simp
qed

lemma evicts_only_trans:
  assumes "evicts_only vs s s1" and "\<And>vs1. lru_ring s1 vs1 \<Longrightarrow> evicts_only vs1 s1 s2"
  shows "evicts_only vs s s2"
proof -
  from assms(1) obtain vs1 where r1: "lru_ring s1 vs1" "set vs1 \<subseteq> set vs"
    and k1: "\<forall>x. x \<noteq> 0 \<and> x \<notin> set vs \<longrightarrow> vfdP s1 x = vfdP s x"
    by (auto simp: evicts_only_def)
  from assms(2)[OF r1(1)] obtain vs2 where r2: "lru_ring s2 vs2" "set vs2 \<subseteq> set vs1"
    and k2: "\<forall>x. x \<noteq> 0 \<and> x \<notin> set vs1 \<longrightarrow> vfdP s2 x = vfdP s1 x"
    by (auto simp: evicts_only_def)
  show ?thesis unfolding evicts_only_def
  proof (intro conjI exI[of _ vs2] allI impI)
    show "lru_ring s2 vs2" by fact
    show "set vs2 \<subseteq> set vs" using r1 r2 by auto
    fix x assume "x \<noteq> 0 \<and> x \<notin> set vs"
    then show "vfdP s2 x = vfdP s x" using k1 k2 r1(2) by auto
  qed
qed

lemma ReleaseLruFile_evicts:
  assumes "lru_ring s vs" "ReleaseLruFile s = (r, s')"
  shows "evicts_only vs s s'"
proof -
  have tlsub: "set (tl vs) \<subseteq> set vs" by (cases vs) auto
  note rr = ReleaseLruFile_ring[OF assms]
  show ?thesis unfolding evicts_only_def
  proof (intro conjI exI[of _ "if r = Inr False then vs else tl vs"])
    show "lru_ring s' (if r = Inr False then vs else tl vs)" using rr by simp
    show "set (if r = Inr False then vs else tl vs) \<subseteq> set vs" using tlsub by simp
    show "\<forall>x. x \<noteq> 0 \<and> x \<notin> set vs \<longrightarrow> vfdP s' x = vfdP s x" using rr by simp
  qed
qed

lemma evicts_only_cache:
  "evicts_only vs s s1 \<Longrightarrow> VfdCache s2 = VfdCache s1 \<Longrightarrow> evicts_only vs s s2"
  using lru_ring_cache[of s2 s1] by (auto simp: evicts_only_def vfdP_def)

lemma evicts_only_cache0:
  "evicts_only vs s0 s1 \<Longrightarrow> VfdCache s0 = VfdCache s \<Longrightarrow> evicts_only vs s s1"
  by (auto simp: evicts_only_def vfdP_def)

lemma release_until_headroom_ring:
  "lru_ring s vs \<Longrightarrow> release_until_headroom s = (r, s') \<Longrightarrow> evicts_only vs s s'"
proof (induction s arbitrary: vs r s' rule: release_until_headroom.induct)
  case (1 s)
  show ?case
  proof (cases "nfile s + numAllocatedDescs s \<ge> max_safe_fds s")
    case False
    with "1.prems" have "s' = s"
      by (subst (asm) release_until_headroom.simps) auto
    then show ?thesis using "1.prems"(1) by (simp add: evicts_only_refl)
  next
    case True
    obtain q s1 where rel: "ReleaseLruFile s = (q, s1)" by (cases "ReleaseLruFile s")
    note e1 = ReleaseLruFile_evicts[OF "1.prems"(1) rel]
    show ?thesis
    proof (cases "q = Inr True")
      case T: True
      with True rel "1.prems" have rec: "release_until_headroom s1 = (r, s')"
        by (subst (asm) release_until_headroom.simps) auto
      have "evicts_only vs1 s1 s'" if "lru_ring s1 vs1" for vs1
        apply (rule "1.IH"[OF _ _ _ _ that rec])
        using True rel T by auto
      then show ?thesis using e1 by (rule evicts_only_trans[rotated])
    next
      case F: False
      with True rel "1.prems" have "s' = s1"
        by (subst (asm) release_until_headroom.simps)
           (auto split: sum.splits bool.splits)
      then show ?thesis using e1 by simp
    qed
  qed
qed

lemma BasicOpenFile_ring:
  "lru_ring s vs \<Longrightarrow> BasicOpenFile n fl m s = (r, s') \<Longrightarrow> evicts_only vs s s'"
proof (induction n fl m s arbitrary: vs r s' rule: BasicOpenFile.induct)
  case (1 fname flags mode s)
  let ?s1 = "snd (syscall (SysOpen fname flags mode) s)"
  let ?s3 = "(elog ''LOG'' ''out of file handles: release and retry'' ?s1)\<lparr>errno := ENONE\<rparr>"
  have ring3: "lru_ring ?s3 vs" using "1.prems"(1) by simp
  have c3: "VfdCache ?s3 = VfdCache s" by simp
  show ?case
  proof (cases "rv (kernel s (length (trace s))) \<ge> 0 \<or> \<not> (errno ?s1 = EMFILE \<or> errno ?s1 = ENFILE)")
    case True
    with "1.prems"(2) have "s' = ?s1"
      by (subst (asm) BasicOpenFile.simps) (auto simp: split_def Let_def split: if_splits)
    then show ?thesis using evicts_only_cache[OF evicts_only_refl[OF "1.prems"(1)], of s'] by simp
  next
    case False
    obtain q s4 where rel: "ReleaseLruFile ?s3 = (q, s4)" by (cases "ReleaseLruFile ?s3")
    note e1 = evicts_only_cache0[OF ReleaseLruFile_evicts[OF ring3 rel] c3]
    show ?thesis
    proof (cases "q = Inr True")
      case True
      with False rel "1.prems"(2) have rec: "BasicOpenFile fname flags mode s4 = (r, s')"
        by (subst (asm) BasicOpenFile.simps) (auto simp: split_def Let_def split: if_splits)
      have "evicts_only vs1 s4 s'" if "lru_ring s4 vs1" for vs1
        apply (rule "1.IH"[OF _ _ _ _ _ _ _ _ _ that rec])
        using False rel True by (auto simp: split_def intro: prod.collapse)
      then show ?thesis using e1 by (rule evicts_only_trans[rotated])
    next
      case F2: False
      with False rel "1.prems"(2) have "s' = s4 \<or> s' = s4\<lparr>errno := errno ?s1\<rparr>"
        by (subst (asm) BasicOpenFile.simps)
           (auto simp: split_def Let_def split: if_splits sum.splits bool.splits)
      then have "VfdCache s' = VfdCache s4" by auto
      then show ?thesis using e1 by (rule evicts_only_cache[rotated])
    qed
  qed
qed



subsection \<open>Seek accounting of reads and writes\<close>

text \<open>
  The entry a sequence of reads and writes works on: a valid index and, while the entry
  is not physically open, not a member of the ring (only open entries are).
\<close>

definition io_ready :: "nat \<Rightarrow> state \<Rightarrow> bool" where
  "io_ready file s \<longleftrightarrow>
     0 < file \<and> file < length (VfdCache s)
     \<and> (FileIsNotOpen s file \<longrightarrow> (\<exists>vs. lru_ring s vs \<and> file \<notin> set vs))"

text \<open>After one successful access the entry is open and, if local, the most recently used.\<close>

definition at_hand :: "nat \<Rightarrow> state \<Rightarrow> bool" where
  "at_hand file s \<longleftrightarrow>
     0 < file \<and> file < length (VfdCache s) \<and> \<not> FileIsNotOpen s file
     \<and> (IsLocalFile s file \<longrightarrow> lruLessRecently (vfdP s 0) = file)"

lemma at_hand_ready: "at_hand f s \<Longrightarrow> io_ready f s"
  by (simp add: at_hand_def io_ready_def)

lemma LruInsert_closed:
  assumes no: "FileIsNotOpen s f" and pos: "0 < f" and inside: "f < length (VfdCache s)"
    and ring: "lru_ring s vs" and out: "f \<notin> set vs"
    and ret: "LruInsert f s = (Inr rc, s')"
  shows "seekPos (vfdP s' f) = seekPos (vfdP s f) \<and> length (VfdCache s') = length (VfdCache s)
       \<and> (rc = 0 \<longrightarrow> at_hand f s')"
proof -
  let ?s0 = "elog ''LOG'' ''reopen file'' s"
  have loc: "IsLocalFile ?s0 f" using no by (simp add: FileIsNotOpen_local)
  have h: "hFS (vfdP s f) = 0" "hFile (vfdP s f) = 0" using no by (simp_all add: FileIsNotOpen_def)
  obtain q1 s1 where r1: "release_until_headroom ?s0 = (q1, s1)" by (cases "release_until_headroom ?s0")
  obtain q2 s2 where r2: "BasicOpenFile (fileName (vfdP s1 f)) (fileFlags (vfdP s1 f)) (fileMode (vfdP s1 f)) s1 = (q2, s2)"
    by (cases "BasicOpenFile (fileName (vfdP s1 f)) (fileFlags (vfdP s1 f)) (fileMode (vfdP s1 f)) s1")
  have ring0: "lru_ring ?s0 vs" using ring by simp
  have e1: "evicts_only vs ?s0 s1" using release_until_headroom_ring[OF ring0 r1] .
  have e2: "evicts_only vs ?s0 s2"
    using e1 BasicOpenFile_ring[OF _ r2] by (rule evicts_only_trans)
  have v1: "vfdP s1 f = vfdP s f" using e1 pos out by (auto simp: evicts_only_def)
  have v2: "vfdP s2 f = vfdP s f" using e2 pos out by (auto simp: evicts_only_def)
  have l1: "length (VfdCache s1) = length (VfdCache s)"
    using release_until_headroom_frame[OF r1] by simp
  have l2: "length (VfdCache s2) = length (VfdCache s)"
    using BasicOpenFile_frame[OF r2] l1 by simp
  from ret no loc r1 r2 obtain newfd where q: "q1 = Inr ()" "q2 = Inr newfd"
    by (auto simp: LruInsert_def LruInsert_open_def Let_def
        split: sum.splits option.splits if_splits prod.splits)
  define s2' where "s2' = set_vfd f (\<lambda>v. v\<lparr>fd := newfd\<rparr>) s2"
  have v2': "vfdP s2' f = (vfdP s f)\<lparr>fd := newfd\<rparr>" "length (VfdCache s2') = length (VfdCache s)"
    using l2 inside v2 by (simp_all add: s2'_def vfdP_set_vfd)
  show ?thesis
  proof (cases "newfd < 0")
    case True
    then have "LruInsert_open f ?s0 = (Inr (Some newfd), s2')"
      using loc r1 r2 q v2' by (simp add: LruInsert_open_def Let_def s2'_def)
    with ret no have "s' = s2'" "rc = newfd" by (auto simp: LruInsert_def)
    then show ?thesis using v2' True by simp
  next
    case False
    define s3 where "s3 = s2'\<lparr>nfile := nfile s2' + 1\<rparr>"
    have o: "LruInsert_open f ?s0 = (Inr None, s3)"
      using loc r1 r2 q v2' False by (simp add: LruInsert_open_def Let_def s2'_def s3_def)
    obtain x s4 where sk: "LruInsert_seek f s3 = (x, s4)" by (cases "LruInsert_seek f s3")
    have c4: "VfdCache s4 = VfdCache s3" using LruInsert_seek_frame[OF sk] by simp
    have v4: "vfdP s4 y = vfdP s2' y" for y using c4 by (simp add: vfdP_def s3_def)
    have l4: "length (VfdCache s4) = length (VfdCache s)" using c4 v2'(2) by (simp add: s3_def)
    have loc4: "IsLocalFile s4 f" "\<not> FileIsNotOpen s4 f"
      using v4[of f] v2'(1) h False by (simp_all add: IsLocalFile_def FileIsNotOpen_def VFD_CLOSED_def)
    show ?thesis
    proof (cases x)
      case None
      with ret no o sk loc4 have s': "s' = Insert f s4" "rc = 0"
        by (auto simp: LruInsert_def)
      show ?thesis
        using s' v4[of f] v2'(1) l4 loc4 pos inside Insert_mru[of f s4]
        by (simp add: at_hand_def)
    next
      case (Some r)
      with ret no o sk LruInsert_seek_ret[of f s3 r s4] have s': "s' = s4" "rc = -1"
        by (auto simp: LruInsert_def)
      show ?thesis using s' v4[of f] v2'(1) l4 by simp
    qed
  qed
qed

lemma FileAccess_io:
  assumes rdy: "io_ready f s" and ret: "FileAccess f s = (Inr rc, s1)"
  shows "seekPos (vfdP s1 f) = seekPos (vfdP s f) \<and> length (VfdCache s1) = length (VfdCache s)
       \<and> rc \<le> 0 \<and> (rc = 0 \<longrightarrow> at_hand f s1)"
proof (cases "FileIsNotOpen s f")
  case True
  with rdy obtain vs where r: "lru_ring s vs" "f \<notin> set vs" "0 < f" "f < length (VfdCache s)"
    by (auto simp: io_ready_def)
  from ret True have l: "LruInsert f s = (Inr rc, s1)" by (simp add: FileAccess_not_open)
  from LruInsert_closed[OF True r(3,4,1,2) l] LruInsert_ret[OF l] show ?thesis by simp
next
  case False
  from rdy have p: "0 < f" "f < length (VfdCache s)" by (auto simp: io_ready_def)
  show ?thesis
  proof (cases "lruLessRecently (vfdP s 0) \<noteq> f \<and> IsLocalFile s f")
    case True
    with ret False have "s1 = Insert f (Delete f s)" "rc = 0" by (auto simp: FileAccess_def)
    then show ?thesis using False p Insert_mru[of f "Delete f s"] by (simp add: at_hand_def)
  next
    case F: False
    with ret False have "s1 = s" "rc = 0" by (auto simp: FileAccess_def)
    then show ?thesis using False F p by (auto simp: at_hand_def)
  qed
qed

text \<open>The table of \<open>s'\<close> is that of \<open>s\<close> with the position of entry \<open>f\<close> set to \<open>p\<close>.\<close>

definition moved_to :: "nat \<Rightarrow> int \<Rightarrow> state \<Rightarrow> state \<Rightarrow> bool" where
  "moved_to f p s s' \<longleftrightarrow> VfdCache s' = (VfdCache s)[f := (VfdCache s ! f)\<lparr>seekPos := p\<rparr>]"

lemma moved_to_at_hand:
  assumes "at_hand f s" "moved_to f p s s'"
  shows "at_hand f s' \<and> seekPos (vfdP s' f) = p"
  using assms
  by (auto simp: at_hand_def moved_to_def vfdP_def FileIsNotOpen_def IsLocalFile_def)

lemma moved_to_seekPos:
  "f < length (VfdCache s) \<Longrightarrow> moved_to f p s s' \<Longrightarrow> seekPos (vfdP s' f) = p"
  by (simp add: moved_to_def vfdP_def)

lemma read_retry_spec:
  "read_retry f amount b s = Some y \<Longrightarrow>
     moved_to f (if 0 \<le> fst y then int64 (seekPos (vfdP s f) + fst y) else FileUnknownPos) s (snd y)"
proof (induction rule: read_retry.raw_induct[rotated 1, consumes 1])
  case (1 rr f amount b s y)
  let ?s1 = "snd (syscall (SysRead (fd (vfdP s f)) amount) s)"
  let ?r = "int32 (rv (kernel s (length (trace s))))"
  show ?case
  proof (cases "\<not> 0 \<le> ?r \<and> errno ?s1 = EINTR \<and> b")
    case True
    with 1(2) have "rr f amount b ?s1 = Some y" by (simp add: split_def)
    from 1(1)[OF this] show ?thesis by (simp add: moved_to_def)
  next
    case False
    with 1(2) have "y = (?r, set_vfd f (\<lambda>v. v\<lparr>seekPos := (if 0 \<le> ?r then int64 (seekPos v + ?r) else FileUnknownPos)\<rparr>) ?s1)"
      by (auto simp: split_def split: if_splits)
    then show ?thesis by (simp add: moved_to_def set_vfd_def vfdP_def)
  qed
qed

lemma write_retry_spec:
  "write_retry f amount s = Some y \<Longrightarrow>
     moved_to f (if 0 \<le> fst y then int64 (seekPos (vfdP s f) + fst y) else FileUnknownPos) s (snd y)"
proof (induction rule: write_retry.raw_induct[rotated 1, consumes 1])
  case (1 wr f amount s y)
  let ?s1 = "snd (syscall (SysWrite (fd (vfdP s f)) amount) (s\<lparr>errno := ENONE\<rparr>))"
  let ?r = "int32 (rv (kernel s (length (trace s))))"
  let ?s2 = "if ?r \<noteq> amount \<and> errno ?s1 = ENONE then ?s1\<lparr>errno := ENOSPC\<rparr> else ?s1"
  have c2: "VfdCache ?s2 = VfdCache s" by simp
  show ?case
  proof (cases "\<not> 0 \<le> ?r \<and> errno ?s2 = EINTR")
    case True
    with 1(2) have "wr f amount ?s2 = Some y" by (simp add: split_def Let_def)
    from 1(1)[OF this] c2 show ?thesis by (simp add: moved_to_def vfdP_def)
  next
    case False
    with 1(2) have "y = (?r, set_vfd f (\<lambda>v. v\<lparr>seekPos := (if 0 \<le> ?r then int64 (seekPos v + ?r) else FileUnknownPos)\<rparr>) ?s2)"
      by (auto simp: split_def Let_def split: if_splits)
    then show ?thesis using c2 by (simp add: moved_to_def set_vfd_def vfdP_def)
  qed
qed

text \<open>
  A sequence of \<^verbatim>\<open>FileRead\<close> and \<^verbatim>\<open>FileWrite\<close> calls on one entry, with the values the
  calls returned; \<open>None\<close> when a call raised an error or did not return.
\<close>

datatype io_call = IoRead int | IoWrite int

definition io_step :: "nat \<Rightarrow> io_call \<Rightarrow> state \<Rightarrow> int res option" where
  "io_step file c s =
     (case c of IoRead amount \<Rightarrow> FileRead file amount s | IoWrite amount \<Rightarrow> FileWrite file amount s)"

fun io_seq :: "nat \<Rightarrow> io_call list \<Rightarrow> state \<Rightarrow> (int list \<times> state) option" where
  "io_seq file [] s = Some ([], s)"
| "io_seq file (c # cs) s =
     (case io_step file c s of
        None \<Rightarrow> None
      | Some (Inl e, s1) \<Rightarrow> None
      | Some (Inr n, s1) \<Rightarrow>
          (case io_seq file cs s1 of None \<Rightarrow> None | Some (ns, s') \<Rightarrow> Some (n # ns, s')))"

lemma io_step_spec:
  assumes rdy: "io_ready f s" and st: "io_step f c s = Some (Inr n, s')"
  shows "(0 \<le> n \<longrightarrow> seekPos (vfdP s' f) = int64 (seekPos (vfdP s f) + n) \<and> io_ready f s')
       \<and> (n < 0 \<longrightarrow> seekPos (vfdP s' f) =
             (if fst (FileAccess f s) = Inr 0 then FileUnknownPos else seekPos (vfdP s f)))"
proof -
  obtain q s1 where fa: "FileAccess f s = (q, s1)" by (cases "FileAccess f s")
  show ?thesis
  proof (cases q)
    case (Inl e)
    with st fa show ?thesis
      by (auto simp: io_step_def FileRead_def FileWrite_def LocalFileRead_def FileReadIntr_def
          LocalFileWrite_def HdfsFileRead_def HdfsFileWrite_def split: io_call.splits if_splits)
  next
    case (Inr rc)
    note a = FileAccess_io[OF rdy fa[unfolded Inr]]
    show ?thesis
    proof (cases "rc = 0")
      case False
      with a have neg: "rc < 0" by simp
      with st fa Inr have "n = rc" "seekPos (vfdP s' f) = seekPos (vfdP s1 f)"
        by (auto simp: io_step_def FileRead_def FileWrite_def LocalFileRead_def FileReadIntr_def
            LocalFileWrite_def HdfsFileRead_def HdfsFileWrite_def split: io_call.splits if_splits)
      then show ?thesis using a neg fa Inr False by simp
    next
      case True
      with a have ah: "at_hand f s1" and sp: "seekPos (vfdP s1 f) = seekPos (vfdP s f)" by simp_all
      have "moved_to f (if 0 \<le> n then int64 (seekPos (vfdP s1 f) + n) else FileUnknownPos) s1 s'"
      proof (cases "IsLocalFile s f")
        case L: True
        show ?thesis
        proof (cases c)
          case (IoRead amount)
          with st fa Inr True L obtain y where y: "read_retry f amount True s1 = Some y" "y = (n, s')"
            by (auto simp: io_step_def FileRead_def LocalFileRead_def FileReadIntr_def
                split: option.splits)
          from read_retry_spec[OF y(1)] show ?thesis unfolding y(2) by (cases "0 \<le> n") simp_all
        next
          case (IoWrite amount)
          with st fa Inr True L obtain y where y: "write_retry f amount s1 = Some y" "y = (n, s')"
            by (auto simp: io_step_def FileWrite_def LocalFileWrite_def split: option.splits)
          from write_retry_spec[OF y(1)] show ?thesis unfolding y(2) by (cases "0 \<le> n") simp_all
        qed
      next
        case D: False
        show ?thesis
        proof (cases c)
          case (IoRead amount)
          with st fa Inr True D show ?thesis
            by (auto simp: io_step_def FileRead_def HdfsFileRead_def Let_def split_def moved_to_def
                set_vfd_def vfdP_def split: if_splits)
        next
          case (IoWrite amount)
          with st fa Inr True D show ?thesis
            by (auto simp: io_step_def FileWrite_def HdfsFileWrite_def Let_def split_def moved_to_def
                set_vfd_def vfdP_def split: if_splits)
        qed
      qed
      from moved_to_at_hand[OF ah this] sp fa Inr True show ?thesis
        by (auto simp: at_hand_ready)
    qed
  qed
qed

lemma io_seq_spec:
  "io_ready f s \<Longrightarrow> io_seq f cs s = Some (ns, s') \<Longrightarrow> \<forall>n \<in> set ns. 0 \<le> n \<Longrightarrow>
   int64 (seekPos (vfdP s f)) = seekPos (vfdP s f) \<Longrightarrow>
   seekPos (vfdP s' f) = int64 (seekPos (vfdP s f) + sum_list ns)"
proof (induction cs arbitrary: s ns)
  case Nil
  then show ?case by simp
next
  case (Cons c cs)
  from Cons.prems(2) obtain n s1 ms where
    st: "io_step f c s = Some (Inr n, s1)" and rest: "io_seq f cs s1 = Some (ms, s')" and ns: "ns = n # ms"
    by (auto split: option.splits sum.splits)
  from ns Cons.prems(3) have n: "0 \<le> n" "\<forall>m \<in> set ms. 0 \<le> m" by simp_all
  from io_step_spec[OF Cons.prems(1) st] n(1)
  have s1: "seekPos (vfdP s1 f) = int64 (seekPos (vfdP s f) + n)" "io_ready f s1" by simp_all
  have "int64 (seekPos (vfdP s1 f)) = seekPos (vfdP s1 f)"
    unfolding s1(1) using int64_add_left[of "seekPos (vfdP s f) + n" 0] by simp
  from Cons.IH[OF s1(2) rest n(2) this] s1(1) ns show ?case
    by (simp add: int64_add_left add.assoc)
qed

text \<open>An entry that is not physically open, at position 5, whose file cannot be opened again.\<close>

definition closed_state :: state where
  "closed_state =
     \<lparr>VfdCache = [mk_vfd (-1) 0 0 0 None, mk_vfd (-1) 0 0 5 (Some ''base/1/gone'')],
      nfile = 0, allocatedDescs = [],
      RecentRemoteAllocatedDesc = -1, freeDescs = no_descs,
      HdfsGlobalContext = 0, HdfsFsTable = None, max_safe_fds = 32, max_files_per_process = 1000,
      errno = ENONE,
      kernel = (\<lambda>n. \<lparr>rv = -1, rerrno = ENOENT, rstrs = []\<rparr>),
      trace = []\<rparr>"

text \<open>
  Claim C5 as stated fails for a call that fails before it reaches the system call: the
  read below returns \<open>-1\<close> because the file cannot be reopened, and the position is
  still 5, not the unknown position.
\<close>

theorem C5_failed_reopen_keeps_position:
  "map_option fst (FileRead 1 10 closed_state) = Some (Inr (-1))
   \<and> map_option (\<lambda>r. seekPos (vfdP (snd r) 1)) (FileRead 1 10 closed_state) = Some 5
   \<and> seekPos (vfdP closed_state 1) = 5 \<and> FileUnknownPos \<noteq> 5"
  by (simp add: closed_state_def FileRead_def LocalFileRead_def FileReadIntr_def FileAccess_def
      LruInsert_def LruInsert_open_def release_until_headroom.simps BasicOpenFile.simps
      IsLocalFile_def FileIsNotOpen_def vfdP_def mk_vfd_def VFD_CLOSED_def numAllocatedDescs_def
      syscall_def elog_def set_vfd_def Let_def FileUnknownPos_def)

text \<open>
  Claim C5, amended. The position of an entry is a 64 bit integer. After a sequence of
  \<^verbatim>\<open>FileRead\<close> and \<^verbatim>\<open>FileWrite\<close> calls on an entry that all return a count \<open>n \<ge> 0\<close>, the
  entry's \<^verbatim>\<open>seekPos\<close> is the position at the start plus the sum of the counts, taken in
  64 bits: it is the exact sum when that is below \<open>2 ^ 63\<close>. A call that returns a negative
  value sets \<^verbatim>\<open>seekPos\<close> to the unknown position when the entry was accessible and the
  read or write itself failed, and leaves \<^verbatim>\<open>seekPos\<close> as it was when the call failed
  because the file could not be reopened.
\<close>

theorem C5_seek_accounting:
  assumes "io_ready file s"
    and "- (2 ^ 63) \<le> seekPos (vfdP s file)" and "seekPos (vfdP s file) < 2 ^ 63"
  shows "(io_seq file cs s = Some (ns, s') \<and> (\<forall>n \<in> set ns. 0 \<le> n) \<longrightarrow>
            seekPos (vfdP s' file) = int64 (seekPos (vfdP s file) + sum_list ns)
            \<and> (seekPos (vfdP s file) + sum_list ns < 2 ^ 63 \<longrightarrow>
                 seekPos (vfdP s' file) = seekPos (vfdP s file) + sum_list ns))
       \<and> (io_step file c s = Some (Inr n, s'') \<and> n < 0 \<longrightarrow>
            seekPos (vfdP s'' file) =
              (if fst (FileAccess file s) = Inr 0 then FileUnknownPos else seekPos (vfdP s file)))"
proof -
  have i: "int64 (seekPos (vfdP s file)) = seekPos (vfdP s file)"
    using assms(2,3) by (rule int64_in_range)
  have "int64 (seekPos (vfdP s file) + sum_list ns) = seekPos (vfdP s file) + sum_list ns"
    if "\<forall>n \<in> set ns. 0 \<le> n" "seekPos (vfdP s file) + sum_list ns < 2 ^ 63"
  proof (rule int64_in_range)
    have "0 \<le> sum_list ns" using that(1) by (simp add: sum_list_nonneg)
    then show "- (2 ^ 63) \<le> seekPos (vfdP s file) + sum_list ns" using assms(2) by simp
    show "seekPos (vfdP s file) + sum_list ns < 2 ^ 63" using that(2) .
  qed
  then show ?thesis
    using io_seq_spec[OF assms(1), of cs ns s'] i io_step_spec[OF assms(1), of c n s''] by simp
qed

theorem C5_seek_accounting_witness:
  "io_ready 1 ring_state
   \<and> (\<exists>s'. io_seq 1 [IoRead 8, IoWrite 4] ring_state = Some ([7, 0], s')
           \<and> seekPos (vfdP s' 1) = 7)"
proof -
  have r: "io_ready 1 ring_state"
    by (simp add: io_ready_def ring_state_def FileIsNotOpen_def vfdP_def mk_vfd_def VFD_CLOSED_def)
  have "\<exists>s'. io_seq 1 [IoRead 8, IoWrite 4] ring_state = Some ([7, 0], s')"
    by (simp add: ring_state_def io_step_def FileRead_def FileWrite_def LocalFileRead_def
        LocalFileWrite_def FileReadIntr_def FileAccess_def read_retry.simps write_retry.simps
        IsLocalFile_def FileIsNotOpen_def vfdP_def mk_vfd_def VFD_CLOSED_def
        Delete_def Insert_def answer_def int32_def int64_def
        syscall_def set_vfd_def Let_def)
  then obtain s' where e: "io_seq 1 [IoRead 8, IoWrite 4] ring_state = Some ([7, 0], s')" ..
  have z: "seekPos (vfdP ring_state 1) = 0" by (simp add: ring_state_def vfdP_def mk_vfd_def)
  from C5_seek_accounting[OF r, where cs = "[IoRead 8, IoWrite 4]" and ns = "[7, 0]" and s' = s'
      and c = "IoRead 0" and n = 0 and s'' = s'] e z
  have "seekPos (vfdP s' 1) = 7" by simp
  with r e show ?thesis by blast
qed


subsection \<open>Opening a file of the distributed file system: saved flags\<close>

lemma saved_flags_append:
  "((flags AND NOT O_CREAT) OR O_APPEND) AND O_APPEND = O_APPEND"
  by (simp add: word_ao_absorbs word_bw_comms)

lemma saved_flags_creat:
  "((flags AND NOT O_CREAT) OR O_APPEND) AND O_CREAT = 0"
proof -
  have "O_APPEND AND O_CREAT = 0" by (simp add: O_APPEND_def O_CREAT_def)
  then show ?thesis
    by (simp add: bit.conj_disj_distrib2 word_bw_assocs)
qed

lemma HdfsParseOptions_frame [simp]:
  "VfdCache (snd (HdfsParseOptions fname r s)) = VfdCache s"
  "kernel (snd (HdfsParseOptions fname r s)) = kernel s"
  "nfile (snd (HdfsParseOptions fname r s)) = nfile s"
  "allocatedDescs (snd (HdfsParseOptions fname r s)) = allocatedDescs s"
  "max_safe_fds (snd (HdfsParseOptions fname r s)) = max_safe_fds s"
  by (simp_all add: HdfsParseOptions_def Let_def split: option.splits list.splits)

lemma HdfsGetProtocol_frame:
  "HdfsGetProtocol fname n s = (r, s') \<Longrightarrow>
     VfdCache s' = VfdCache s \<and> kernel s' = kernel s \<and> nfile s' = nfile s
     \<and> allocatedDescs s' = allocatedDescs s \<and> max_safe_fds s' = max_safe_fds s"
  by (auto simp: HdfsGetProtocol_def split: option.splits if_splits)

lemma ConvertToUnixPath_frame:
  "ConvertToUnixPath fname n s = (r, s') \<Longrightarrow>
     VfdCache s' = VfdCache s \<and> kernel s' = kernel s \<and> nfile s' = nfile s
     \<and> allocatedDescs s' = allocatedDescs s \<and> max_safe_fds s' = max_safe_fds s"
  by (auto simp: ConvertToUnixPath_def Let_def split: option.splits if_splits)

lemma HdfsFsTable_lookup_frame:
  "HdfsFsTable_lookup proto host port s = (r, s') \<Longrightarrow>
     VfdCache s' = VfdCache s \<and> kernel s' = kernel s \<and> nfile s' = nfile s
     \<and> allocatedDescs s' = allocatedDescs s \<and> max_safe_fds s' = max_safe_fds s
     \<and> set (trace s) \<subseteq> set (trace s')"
  by (auto simp: HdfsFsTable_lookup_def Let_def split_def
      split: option.splits if_splits sum.splits)

lemma HdfsGetConnection_frame:
  "HdfsGetConnection proto path s = (r, s') \<Longrightarrow>
     VfdCache s' = VfdCache s \<and> kernel s' = kernel s \<and> nfile s' = nfile s
     \<and> allocatedDescs s' = allocatedDescs s \<and> max_safe_fds s' = max_safe_fds s
     \<and> set (trace s) \<subseteq> set (trace s')"
  by (auto simp: HdfsGetConnection_def Let_def split_def
      split: option.splits if_splits dest!: HdfsFsTable_lookup_frame)

lemma HdfsBasicOpenFile_ok:
  assumes "HdfsBasicOpenFile fname flags mode outs s = ((Inr True, p, fs, hf), s')"
  shows "fs \<noteq> 0 \<and> hf \<noteq> 0 \<and> VfdCache s' = VfdCache s
       \<and> (\<exists>proto path rep seen. (DfsOpenFile proto path flags rep, seen) \<in> set (trace s'))"
proof -
  obtain p0 fs0 hf0 where outs: "outs = (p0, fs0, hf0)" by (cases outs) auto
  obtain gp s1 where g: "HdfsGetProtocol fname MAXPGPATH s = (gp, s1)"
    by (cases "HdfsGetProtocol fname MAXPGPATH s")
  from assms outs g obtain proto where gp: "gp = Some proto"
    by (cases gp) (auto simp: HdfsBasicOpenFile_def)
  define s2 where "s2 = snd (HdfsParseOptions fname FS_DEFAULT_REPLICA_NUM s1)"
  define rep where "rep = snd (fst (HdfsParseOptions fname FS_DEFAULT_REPLICA_NUM s1))"
  define s3 where "s3 = snd (syscall SysMalloc s2)"
  obtain gc s4 where gcn: "HdfsGetConnection proto fname s3 = (gc, s4)"
    by (cases "HdfsGetConnection proto fname s3")
  from assms outs g gp gcn have gc: "gc = Inr fs" "fs \<noteq> 0"
    by (cases gc; auto simp: HdfsBasicOpenFile_def Let_def split_def s2_def s3_def
        split: if_splits option.splits)+
  obtain cp s5 where c: "ConvertToUnixPath fname (MAXPGPATH + 1) s4 = (cp, s5)"
    by (cases "ConvertToUnixPath fname (MAXPGPATH + 1) s4")
  have c5: "VfdCache s5 = VfdCache s"
    using HdfsGetProtocol_frame[OF g] ConvertToUnixPath_frame[OF c] HdfsGetConnection_frame[OF gcn]
    by (simp add: s3_def s2_def)
  from assms outs g gp gcn gc c obtain path where cp: "cp = Some path"
    by (cases cp)
       (auto simp: HdfsBasicOpenFile_def Let_def split_def s2_def s3_def split: if_splits)
  define r where "r = (if \<not> (flags AND O_APPEND \<noteq> 0) \<and> (flags AND O_WRONLY \<noteq> 0) then rep else 0)"
  define s6 where "s6 = snd (syscall (DfsOpenFile proto path flags r) s5)"
  have ev: "(DfsOpenFile proto path flags r, VfdCache s5) \<in> set (trace s6)"
    by (simp add: s6_def)
  have "hf \<noteq> 0 \<and> VfdCache s' = VfdCache s \<and> set (trace s6) \<subseteq> set (trace s')"
    using assms outs g gp gcn gc c cp c5
    by (auto simp: HdfsBasicOpenFile_def Let_def split_def s2_def s3_def s6_def rep_def r_def
        split: if_splits)
  then show ?thesis using ev gc by blast
qed

text \<open>
  What \<^verbatim>\<open>LruInsert\<close> does to a DFS entry. An entry is reopened only when
  \<^verbatim>\<open>FileIsNotOpen\<close> holds of it, and then both DFS handles are \<^verbatim>\<open>NULL\<close>: for a DFS entry
  \<^verbatim>\<open>LruInsert\<close> makes no call and returns 0. The step that restores the position has a branch
  for DFS entries all the same.
\<close>

lemma LruInsert_dfs: "\<not> IsLocalFile s f \<Longrightarrow> LruInsert f s = (Inr 0, s)"
  using FileIsNotOpen_local[of s f] by (auto simp: LruInsert_def)

lemma LruInsert_seek_dfs_write:
  assumes "\<not> IsLocalFile s f" "fileFlags (vfdP s f) AND O_WRONLY \<noteq> 0"
    "fileFlags (vfdP s f) AND O_APPEND = 0"
  shows "seekPos (vfdP s f) \<noteq> 0 \<Longrightarrow> fst (LruInsert_seek f s) = Some (-1)"
    and "seekPos (vfdP s f) = 0 \<Longrightarrow> LruInsert_seek f s = (None, s)"
  using assms by (simp_all add: LruInsert_seek_def Let_def split_def)

lemma AllocateVfd_trace:
  "AllocateVfd s = (q, s') \<Longrightarrow> set (trace s) \<subseteq> set (trace s')"
  by (auto simp: AllocateVfd_def Let_def split_def split: if_splits)

text \<open>
  Claim C4, first clause, does not hold of the code. The path \<^verbatim>\<open>hdfs://h:1/f\<close> is a DFS path
  and \<^verbatim>\<open>O_WRONLY\<close> is a write open without append; with a client whose calls all succeed
  \<^verbatim>\<open>PathNameOpenFile\<close> returns entry 1, created for that path. \<^verbatim>\<open>HdfsBasicOpenFile\<close> has no
  test that rejects such an open: the test on the two flags only selects the replica count
  handed to the client.
\<close>

theorem C4_write_without_append_opens:
  "\<not> IsLocalPath ''hdfs://h:1/f'' \<and> O_WRONLY AND O_WRONLY \<noteq> 0 \<and> O_WRONLY AND O_APPEND = 0
   \<and> fst (PathNameOpenFile ''hdfs://h:1/f'' O_WRONLY 384 (started (\<lambda>n. answer 3))) = Inr 1
   \<and> fileName (vfdP (snd (PathNameOpenFile ''hdfs://h:1/f'' O_WRONLY 384 (started (\<lambda>n. answer 3)))) 1)
       = Some ''hdfs://h:1/f''"
  by (simp add: PathNameOpenFile_def IsLocalPath_def strncmp_eq_def local_prefix_def
      HdfsPathNameOpenFile_def HdfsBasicOpenFile_def HdfsGetConnection_def HdfsFsTable_lookup_def
      strtol_def digit_of_def isspace_def LONG_MAX_def LONG_MIN_def int32_def dec.simps
      HdfsGetProtocol_def HdfsParseOptions_def ConvertToUnixPath_def AllocateVfd_def
      started_def InitFileAccess_def boot_def syscall_def Let_def answer_def split_def
      fsys_protocol_sep_def MAXPGPATH_def O_WRONLY_def O_APPEND_def O_CREAT_def
      vfdP_def set_vfd_def new_vfd_def SizeVfdCache_def elog_def FS_DEFAULT_REPLICA_NUM_def)

text \<open>
  Claim C4, as the code has it. An open of a DFS path that returns an entry has handed the
  caller's flags to the client's open (a write open without append included), and the entry
  it returns, when inside the table, keeps the path and flags that include \<^verbatim>\<open>O_APPEND\<close> and
  exclude \<^verbatim>\<open>O_CREAT\<close>, and is a DFS entry that \<^verbatim>\<open>FileIsNotOpen\<close> does not hold of:
  \<^verbatim>\<open>LruInsert\<close> called on it makes no call and returns 0, so the saved flags are not used
  for a second open. At reopen time the step of \<^verbatim>\<open>LruInsert\<close> that restores the position,
  on any DFS entry whose flags have \<^verbatim>\<open>O_WRONLY\<close> and lack \<^verbatim>\<open>O_APPEND\<close>, fails with \<open>-1\<close>
  when the saved position is not 0, and makes no test and no call when it is 0.
\<close>

theorem C4_dfs_open_saves_append:
  assumes dfs: "\<not> IsLocalPath fname"
    and opened: "PathNameOpenFile fname flags mode s = (Inr file, s')" and ok: "0 \<le> file"
  shows "(\<exists>proto path rep seen. (DfsOpenFile proto path flags rep, seen) \<in> set (trace s'))
       \<and> (nat file < length (VfdCache s') \<longrightarrow>
            fileFlags (vfdP s' (nat file)) AND O_APPEND = O_APPEND
          \<and> fileFlags (vfdP s' (nat file)) AND O_CREAT = 0
          \<and> fileName (vfdP s' (nat file)) = Some fname
          \<and> \<not> IsLocalFile s' (nat file) \<and> \<not> FileIsNotOpen s' (nat file)
          \<and> LruInsert (nat file) s' = (Inr 0, s'))
       \<and> (\<not> IsLocalFile t g \<and> fileFlags (vfdP t g) AND O_WRONLY \<noteq> 0
            \<and> fileFlags (vfdP t g) AND O_APPEND = 0 \<longrightarrow>
            (seekPos (vfdP t g) \<noteq> 0 \<longrightarrow> fst (LruInsert_seek g t) = Some (-1))
          \<and> (seekPos (vfdP t g) = 0 \<longrightarrow> LruInsert_seek g t = (None, t)))"
proof -
  let ?s1 = "snd (syscall SysMalloc s)"
  obtain b p fs hf s2 where h: "HdfsBasicOpenFile fname flags mode (None, 0, 0) ?s1 = ((b, p, fs, hf), s2)"
    by (cases "HdfsBasicOpenFile fname flags mode (None, 0, 0) ?s1") auto
  from opened dfs h ok have b: "b = Inr True" and m: "rv (kernel s (length (trace s))) \<noteq> 0"
    by (cases b; auto simp: PathNameOpenFile_def HdfsPathNameOpenFile_def Let_def split_def
        split: if_splits bool.splits)+
  note o = HdfsBasicOpenFile_ok[OF h[unfolded b]]
  obtain q s3 where a: "AllocateVfd s2 = (q, s3)" by (cases "AllocateVfd s2")
  from opened dfs h b m a obtain f where q: "q = Inr f" "file = int f"
    and s': "s' = set_vfd f
                    (\<lambda>v. v\<lparr>fileName := Some fname, hFS := fs, hFile := hf, hProtocol := p,
                            fileFlags := (flags AND NOT O_CREAT) OR O_APPEND,
                            fileMode := mode, seekPos := 0, fdstate := 0\<rparr>) s3"
    by (cases q) (auto simp: PathNameOpenFile_def HdfsPathNameOpenFile_def Let_def split_def)
  have tr: "set (trace s2) \<subseteq> set (trace s')" using AllocateVfd_trace[OF a] by (simp add: s')
  have c2: "nat file < length (VfdCache s') \<longrightarrow>
            fileFlags (vfdP s' (nat file)) AND O_APPEND = O_APPEND
          \<and> fileFlags (vfdP s' (nat file)) AND O_CREAT = 0
          \<and> fileName (vfdP s' (nat file)) = Some fname
          \<and> \<not> IsLocalFile s' (nat file) \<and> \<not> FileIsNotOpen s' (nat file)"
    using q o
    by (simp add: s' vfdP_set_vfd saved_flags_append saved_flags_creat IsLocalFile_def
        FileIsNotOpen_def)
  have c3: "nat file < length (VfdCache s') \<longrightarrow> LruInsert (nat file) s' = (Inr 0, s')"
    using c2 LruInsert_dfs by blast
  have c4: "\<not> IsLocalFile t g \<and> fileFlags (vfdP t g) AND O_WRONLY \<noteq> 0
            \<and> fileFlags (vfdP t g) AND O_APPEND = 0 \<longrightarrow>
            (seekPos (vfdP t g) \<noteq> 0 \<longrightarrow> fst (LruInsert_seek g t) = Some (-1))
          \<and> (seekPos (vfdP t g) = 0 \<longrightarrow> LruInsert_seek g t = (None, t))"
    using LruInsert_seek_dfs_write[of t g] by blast
  have c1: "\<exists>proto path rep seen. (DfsOpenFile proto path flags rep, seen) \<in> set (trace s')"
    using o tr by blast
  show ?thesis using c1 c2 c3 c4 by blast
qed

text \<open>
  The write open without append of the example above satisfies the hypotheses.
\<close>

theorem C4_dfs_open_saves_append_witness:
  "fst (PathNameOpenFile ''hdfs://h:1/f'' O_WRONLY 384 (started (\<lambda>n. answer 3))) = Inr 1
   \<and> fileFlags (vfdP (snd (PathNameOpenFile ''hdfs://h:1/f'' O_WRONLY 384 (started (\<lambda>n. answer 3)))) 1)
        AND O_APPEND = O_APPEND"
proof -
  let ?r = "PathNameOpenFile ''hdfs://h:1/f'' O_WRONLY 384 (started (\<lambda>n. answer 3))"
  have d: "\<not> IsLocalPath ''hdfs://h:1/f''"
    by (simp add: IsLocalPath_def strncmp_eq_def local_prefix_def fsys_protocol_sep_def)
  have f: "fst ?r = Inr 1" and l: "length (VfdCache (snd ?r)) = 32"
    by (simp_all add: PathNameOpenFile_def IsLocalPath_def strncmp_eq_def local_prefix_def
      HdfsPathNameOpenFile_def HdfsBasicOpenFile_def HdfsGetConnection_def HdfsFsTable_lookup_def
      strtol_def digit_of_def isspace_def LONG_MAX_def LONG_MIN_def int32_def dec.simps
      HdfsGetProtocol_def HdfsParseOptions_def ConvertToUnixPath_def AllocateVfd_def
      started_def InitFileAccess_def boot_def syscall_def Let_def answer_def split_def
      fsys_protocol_sep_def MAXPGPATH_def O_WRONLY_def O_APPEND_def O_CREAT_def
      vfdP_def set_vfd_def new_vfd_def SizeVfdCache_def elog_def FS_DEFAULT_REPLICA_NUM_def)
  have e: "?r = (Inr 1, snd ?r)" using f by (cases ?r) simp
  from C4_dfs_open_saves_append[OF d e] l f show ?thesis by simp
qed


subsection \<open>The sweep of temporary files follows its script\<close>

lemma HasTempFilePrefix_prefix: "HasTempFilePrefix f = prefix PG_TEMP_FILE_PREFIX f"
  unfolding HasTempFilePrefix_def strncmp_eq_def
  by (metis append_eq_conv_conj order_refl prefix_def take_all)

text \<open>
  What the sweep is expected to do, written as the list of the calls it makes and what the
  environment answers to each. A per-database directory is either one that cannot be
  opened, with the error \<^verbatim>\<open>opendir\<close> reports, or one that opens with the names it holds.
\<close>

datatype dir_content = Unopenable errno_val | Listing hdl "string list"

type_synonym step = "syscall \<times> (sysres \<Rightarrow> bool)"

definition any_answer :: "sysres \<Rightarrow> bool" where "any_answer r = True"
definition gives_name :: "string \<Rightarrow> sysres \<Rightarrow> bool" where
  "gives_name n r = (rv r \<noteq> 0 \<and> d_name r = n)"
definition end_of_dir :: "sysres \<Rightarrow> bool" where
  "end_of_dir r = (rv r = 0 \<and> rerrno r = ENONE)"
definition opened :: "hdl \<Rightarrow> sysres \<Rightarrow> bool" where "opened d r = (nat (rv r) = d)"
definition open_fails :: "errno_val \<Rightarrow> sysres \<Rightarrow> bool" where
  "open_fails e r = (nat (rv r) = 0 \<and> rerrno r = e)"

fun answers_from :: "(nat \<Rightarrow> sysres) \<Rightarrow> nat \<Rightarrow> (sysres \<Rightarrow> bool) list \<Rightarrow> bool" where
  "answers_from k t [] = True"
| "answers_from k t (p # ps) = (p (k t) \<and> answers_from k (Suc t) ps)"

definition dot_entry :: "string \<Rightarrow> bool" where
  "dot_entry n = (n = ''.'' \<or> n = ''..'')"

definition temp_path :: "string \<Rightarrow> string" where
  "temp_path n = snprintf MAXPGPATH (''base/'' @ n @ ''/'' @ PG_TEMP_FILES_DIR)"

definition path_in :: "string \<Rightarrow> string \<Rightarrow> string" where
  "path_in tmp f = snprintf MAXPGPATH (tmp @ ''/'' @ f)"

definition file_script :: "hdl \<Rightarrow> string \<Rightarrow> string \<Rightarrow> step list" where
  "file_script d tmp f =
     (SysReaddir d, gives_name f) #
     (if dot_entry f then []
      else if prefix PG_TEMP_FILE_PREFIX f then [(SysUnlink (Some (path_in tmp f)), any_answer)]
      else [(Elog ''LOG'' (''unexpected file found in temporary-files directory: '' @ path_in tmp f),
             any_answer)])"

fun dir_script :: "string \<Rightarrow> dir_content \<Rightarrow> step list" where
  "dir_script tmp (Unopenable e) =
     (SysOpendir tmp, open_fails e) #
     (if e = EMFILE \<or> e = ENFILE
      then [(Elog ''LOG'' ''out of file handles: release and retry'', any_answer)] else []) @
     (if e \<noteq> ENOENT
      then [(Elog ''LOG'' (''could not open temporary-files directory: '' @ tmp), any_answer)]
      else [])"
| "dir_script tmp (Listing d fs) =
     [(SysOpendir tmp, opened d), (GetCurrentSubTransactionId, any_answer)] @
     concat (map (file_script d tmp) fs) @
     [(SysReaddir d, end_of_dir), (SysClosedir d, any_answer)]"

definition db_script :: "hdl \<Rightarrow> string \<times> dir_content \<Rightarrow> step list" where
  "db_script dbd e =
     (SysReaddir dbd, gives_name (fst e)) #
     (if dot_entry (fst e) then [] else dir_script (temp_path (fst e)) (snd e))"

definition sweep_script :: "hdl \<Rightarrow> (string \<times> dir_content) list \<Rightarrow> step list" where
  "sweep_script dbd tree =
     [(SysOpendir ''base'', opened dbd), (GetCurrentSubTransactionId, any_answer)] @
     concat (map (db_script dbd) tree) @
     [(SysReaddir dbd, end_of_dir), (SysClosedir dbd, any_answer)]"

fun db_ok :: "string \<times> dir_content \<Rightarrow> bool" where
  "db_ok (n, Unopenable e) = (dot_entry n \<or> (IsLocalPath (temp_path n) \<and> e \<noteq> ENONE))"
| "db_ok (n, Listing d fs) = (dot_entry n \<or> (IsLocalPath (temp_path n) \<and> d \<noteq> 0))"

text \<open>The files the sweep is expected to remove, and the paths \<^verbatim>\<open>unlink\<close> was called with.\<close>

fun temp_files :: "string \<times> dir_content \<Rightarrow> string list" where
  "temp_files (n, Unopenable e) = []"
| "temp_files (n, Listing d fs) =
     (if dot_entry n then []
      else map (path_in (temp_path n))
             (filter (\<lambda>f. \<not> dot_entry f \<and> prefix PG_TEMP_FILE_PREFIX f) fs))"

fun unlinked :: "syscall list \<Rightarrow> string list" where
  "unlinked [] = []"
| "unlinked (SysUnlink (Some p) # cs) = p # unlinked cs"
| "unlinked (c # cs) = unlinked cs"

definition calls_since :: "state \<Rightarrow> state \<Rightarrow> syscall list" where
  "calls_since s s' = map fst (drop (length (trace s)) (trace s'))"

text \<open>What the sweep leaves alone.\<close>

definition sweep_frame :: "state \<Rightarrow> state \<Rightarrow> bool" where
  "sweep_frame s s' =
     (VfdCache s' = VfdCache s \<and> nfile s' = nfile s \<and> allocatedDescs s' = allocatedDescs s
      \<and> max_safe_fds s' = max_safe_fds s \<and> kernel s' = kernel s)"

lemma answers_from_append:
  "answers_from k t (ps @ qs) = (answers_from k t ps \<and> answers_from k (t + length ps) qs)"
  by (induction ps arbitrary: t) auto

lemma sweep_frame_refl [simp]: "sweep_frame s s"
  by (simp add: sweep_frame_def)

lemma sweep_frame_trans: "sweep_frame s s1 \<Longrightarrow> sweep_frame s1 s2 \<Longrightarrow> sweep_frame s s2"
  by (simp add: sweep_frame_def)

definition ran_script :: "state \<Rightarrow> step list \<Rightarrow> state \<Rightarrow> bool" where
  "ran_script s sc s' = (map fst (trace s') = map fst (trace s) @ map fst sc \<and> kernel s' = kernel s)"

lemma ran_length: "ran_script s sc s' \<Longrightarrow> length (trace s') = length (trace s) + length sc"
  unfolding ran_script_def by (metis length_append length_map)

lemma ran_trans: "ran_script s a s1 \<Longrightarrow> ran_script s1 b s2 \<Longrightarrow> ran_script s (a @ b) s2"
  by (simp add: ran_script_def)

lemma ReadDir_name:
  assumes "IsLocalPath tmp" "d \<noteq> 0" "gives_name f (kernel s (length (trace s)))"
  shows "\<exists>s1. ReadDir d tmp s = (Inr (Some f), s1) \<and> ran_script s [(SysReaddir d, p)] s1
              \<and> sweep_frame s s1"
  using assms
  by (simp add: ReadDir_def syscall_def Let_def gives_name_def ran_script_def sweep_frame_def)

lemma ReadDir_end:
  assumes "IsLocalPath tmp" "d \<noteq> 0" "end_of_dir (kernel s (length (trace s)))"
  shows "\<exists>s1. ReadDir d tmp s = (Inr None, s1) \<and> ran_script s [(SysReaddir d, p)] s1
              \<and> sweep_frame s s1"
  using assms
  by (simp add: ReadDir_def syscall_def Let_def end_of_dir_def ran_script_def sweep_frame_def)

lemma loop_runs:
  assumes "IsLocalPath tmp" "d \<noteq> 0"
    and "answers_from (kernel s) (length (trace s))
           (map snd (concat (map (file_script d tmp) fs) @ [(SysReaddir d, end_of_dir)]))"
  shows "\<exists>s'. RemovePgTempFilesInDir_loop d tmp s = Some (Inr (), s')
            \<and> ran_script s (concat (map (file_script d tmp) fs) @ [(SysReaddir d, end_of_dir)]) s'
            \<and> sweep_frame s s'"
  using assms(3)
proof (induction fs arbitrary: s)
  case Nil
  then have "end_of_dir (kernel s (length (trace s)))" by simp
  from ReadDir_end[OF assms(1,2) this, where p = end_of_dir] show ?case
    by (subst RemovePgTempFilesInDir_loop.simps) auto
next
  case (Cons f fs)
  let ?rest = "concat (map (file_script d tmp) fs) @ [(SysReaddir d, end_of_dir)]"
  from Cons.prems have g: "gives_name f (kernel s (length (trace s)))"
    by (simp add: file_script_def)
  from ReadDir_name[OF assms(1,2) g, where p = "gives_name f"] obtain s1 where
    rd: "ReadDir d tmp s = (Inr (Some f), s1)" and r1: "ran_script s [(SysReaddir d, gives_name f)] s1"
    and f1: "sweep_frame s s1" by blast
  have l1: "length (trace s1) = Suc (length (trace s))" using ran_length[OF r1] by simp
  have k1: "kernel s1 = kernel s" using r1 by (simp add: ran_script_def)
  show ?case
  proof (cases "dot_entry f")
    case True
    with Cons.prems have "answers_from (kernel s1) (length (trace s1)) (map snd ?rest)"
      by (simp add: l1 k1 file_script_def [of d tmp f])
    from Cons.IH[OF this] obtain s' where
      a: "RemovePgTempFilesInDir_loop d tmp s1 = Some (Inr (), s')" and b: "ran_script s1 ?rest s'"
      and c: "sweep_frame s1 s'" by blast
    have "RemovePgTempFilesInDir_loop d tmp s = Some (Inr (), s')"
      using True rd a by (subst RemovePgTempFilesInDir_loop.simps) (simp add: dot_entry_def)
    moreover have "ran_script s (concat (map (file_script d tmp) (f # fs)) @ [(SysReaddir d, end_of_dir)]) s'"
      using ran_trans[OF r1 b] True by (simp add: file_script_def [of d tmp f])
    ultimately show ?thesis using sweep_frame_trans[OF f1 c] by blast
  next
    case False
    define c where "c = (if prefix PG_TEMP_FILE_PREFIX f then SysUnlink (Some (path_in tmp f))
        else Elog ''LOG'' (''unexpected file found in temporary-files directory: '' @ path_in tmp f))"
    define s2 where "s2 = (if prefix PG_TEMP_FILE_PREFIX f
        then snd (syscall (SysUnlink (Some (path_in tmp f))) s1)
        else elog ''LOG'' (''unexpected file found in temporary-files directory: '' @ path_in tmp f) s1)"
    have r2: "ran_script s1 [(c, any_answer)] s2" and f2: "sweep_frame s1 s2"
      by (simp_all add: ran_script_def sweep_frame_def s2_def c_def syscall_def elog_def Let_def)
    have l2: "length (trace s2) = Suc (Suc (length (trace s)))" using ran_length[OF r2] l1 by simp
    have k2: "kernel s2 = kernel s" using r2 k1 by (simp add: ran_script_def)
    from Cons.prems False have "answers_from (kernel s2) (length (trace s2)) (map snd ?rest)"
      by (cases "prefix PG_TEMP_FILE_PREFIX f") (simp_all add: l2 k2 file_script_def [of d tmp f])
    from Cons.IH[OF this] obtain s' where
      a: "RemovePgTempFilesInDir_loop d tmp s2 = Some (Inr (), s')" and b: "ran_script s2 ?rest s'"
      and cc: "sweep_frame s2 s'" by blast
    have "RemovePgTempFilesInDir_loop d tmp s = Some (Inr (), s')"
    proof (cases "prefix PG_TEMP_FILE_PREFIX f")
      case True
      then show ?thesis
        using False rd a
        by (subst RemovePgTempFilesInDir_loop.simps)
           (simp add: dot_entry_def s2_def HasTempFilePrefix_prefix path_in_def Let_def)
    next
      case nop: False
      then show ?thesis
        using False rd a
        by (subst RemovePgTempFilesInDir_loop.simps)
           (simp add: dot_entry_def s2_def HasTempFilePrefix_prefix path_in_def Let_def)
    qed
    moreover have "ran_script s (concat (map (file_script d tmp) (f # fs)) @ [(SysReaddir d, end_of_dir)]) s'"
      using ran_trans[OF r1 ran_trans[OF r2 b]] False
      by (cases "prefix PG_TEMP_FILE_PREFIX f") (simp_all add: c_def file_script_def [of d tmp f])
    ultimately show ?thesis using sweep_frame_trans[OF f1 sweep_frame_trans[OF f2 cc]] by blast
  qed
qed

lemma AllocateDir_opens:
  assumes "IsLocalPath tmp" "d \<noteq> 0"
    and "numAllocatedDescs s < MAX_ALLOCATED_DESCS" "numAllocatedDescs s < max_safe_fds s - 1"
    and "opened d (kernel s (length (trace s)))"
  shows "\<exists>s1 x. AllocateDir tmp s = (Inr d, s1)
           \<and> ran_script s [(SysOpendir tmp, p), (GetCurrentSubTransactionId, q)] s1
           \<and> allocatedDescs s1 = allocatedDescs s @ [x] \<and> kind x = AllocateDescDir \<and> desc x = d
           \<and> VfdCache s1 = VfdCache s \<and> nfile s1 = nfile s \<and> max_safe_fds s1 = max_safe_fds s"
proof -
  from assms(2,5) have pos: "0 < rv (kernel s (length (trace s)))"
    and d: "nat (rv (kernel s (length (trace s)))) = d"
    by (auto simp: opened_def)
  show ?thesis
    using assms(1,3,4) pos
    by (auto simp: AllocateDir_def AllocateDir_open.simps [of tmp s] syscall_def Let_def
        ran_script_def d push_desc_def new_desc_def)
qed

lemma AllocateDir_fails:
  assumes "IsLocalPath tmp" "nfile s = 0" "e \<noteq> ENONE"
    and "numAllocatedDescs s < MAX_ALLOCATED_DESCS" "numAllocatedDescs s < max_safe_fds s - 1"
    and "open_fails e (kernel s (length (trace s)))"
  shows "\<exists>s1. AllocateDir tmp s = (Inr 0, s1) \<and> errno s1 = e
           \<and> ran_script s ((SysOpendir tmp, p) #
                 (if e = EMFILE \<or> e = ENFILE
                  then [(Elog ''LOG'' ''out of file handles: release and retry'', q)] else [])) s1
           \<and> sweep_frame s s1"
proof -
  from assms(6) have z: "rv (kernel s (length (trace s))) \<le> 0"
    and e: "rerrno (kernel s (length (trace s))) = e"
    by (auto simp: open_fails_def)
  show ?thesis
    using assms(1-5) z
    by (auto simp: AllocateDir_def AllocateDir_open.simps [of tmp s] syscall_def Let_def
        ran_script_def ReleaseLruFile_def elog_def sweep_frame_def e)
qed

lemma scan_down_top:
  "p x \<Longrightarrow> scan_down p (xs @ [x]) (length (xs @ [x])) = Some (length xs)"
  by simp

lemma FreeDir_top:
  assumes "allocatedDescs s = xs @ [x]" "kind x = AllocateDescDir" "desc x = d"
  shows "ran_script s [(SysClosedir d, p)] (snd (FreeDir d s))
       \<and> allocatedDescs (snd (FreeDir d s)) = xs
       \<and> VfdCache (snd (FreeDir d s)) = VfdCache s \<and> nfile (snd (FreeDir d s)) = nfile s
       \<and> max_safe_fds (snd (FreeDir d s)) = max_safe_fds s"
proof -
  have "scan_down (\<lambda>d'. kind d' \<noteq> AllocateDescFile \<and> desc d' = d) (allocatedDescs s)
          (length (allocatedDescs s)) = Some (length xs)"
    unfolding assms(1) by (rule scan_down_top) (simp add: assms)
  then show ?thesis
    using assms
    by (simp add: FreeDir_def FreeDesc_def syscall_def Let_def ran_script_def)
qed

lemma dir_runs:
  assumes loc: "IsLocalPath tmp" and nf: "nfile s = 0"
    and ok: "case c of Unopenable e \<Rightarrow> e \<noteq> ENONE | Listing d fs \<Rightarrow> d \<noteq> 0"
    and h1: "numAllocatedDescs s < MAX_ALLOCATED_DESCS"
    and h2: "numAllocatedDescs s < max_safe_fds s - 1"
    and ans: "answers_from (kernel s) (length (trace s)) (map snd (dir_script tmp c))"
  shows "\<exists>s'. RemovePgTempFilesInDir tmp s = Some (Inr (), s')
            \<and> ran_script s (dir_script tmp c) s' \<and> sweep_frame s s'"
proof (cases c)
  case (Unopenable e)
  with ok have e: "e \<noteq> ENONE" by simp
  from ans Unopenable have "open_fails e (kernel s (length (trace s)))" by simp
  from AllocateDir_fails[OF loc nf e h1 h2 this, where p = "open_fails e" and q = any_answer] obtain s1 where
    a: "AllocateDir tmp s = (Inr 0, s1)" and b: "errno s1 = e"
    and r: "ran_script s ((SysOpendir tmp, open_fails e) #
                 (if e = EMFILE \<or> e = ENFILE
                  then [(Elog ''LOG'' ''out of file handles: release and retry'', any_answer)] else [])) s1"
    and f: "sweep_frame s s1" by blast
  show ?thesis
    using a b r f Unopenable
    by (auto simp: RemovePgTempFilesInDir_def ran_script_def sweep_frame_def elog_def)
next
  case (Listing d fs)
  with ok have d: "d \<noteq> 0" by simp
  let ?body = "concat (map (file_script d tmp) fs) @ [(SysReaddir d, end_of_dir)]"
  from ans Listing have o: "opened d (kernel s (length (trace s)))"
    and rest: "answers_from (kernel s) (Suc (Suc (length (trace s)))) (map snd ?body)"
    by (simp_all add: answers_from_append)
  from AllocateDir_opens[OF loc d h1 h2 o, where p = "opened d" and q = any_answer] obtain s1 x where
    a: "AllocateDir tmp s = (Inr d, s1)"
    and r1: "ran_script s [(SysOpendir tmp, opened d), (GetCurrentSubTransactionId, any_answer)] s1"
    and al: "allocatedDescs s1 = allocatedDescs s @ [x]" and kx: "kind x = AllocateDescDir" "desc x = d"
    and fr: "VfdCache s1 = VfdCache s" "nfile s1 = nfile s" "max_safe_fds s1 = max_safe_fds s"
    by blast
  have k1: "kernel s1 = kernel s" using r1 by (simp add: ran_script_def)
  have l1: "length (trace s1) = Suc (Suc (length (trace s)))" using ran_length[OF r1] by simp
  from rest have "answers_from (kernel s1) (length (trace s1)) (map snd ?body)"
    by (simp add: k1 l1)
  from loop_runs[OF loc d this] obtain s2 where
    lp: "RemovePgTempFilesInDir_loop d tmp s1 = Some (Inr (), s2)"
    and r2: "ran_script s1 ?body s2" and f2: "sweep_frame s1 s2" by blast
  have al2: "allocatedDescs s2 = allocatedDescs s @ [x]"
    using f2 al by (simp add: sweep_frame_def)
  note fd = FreeDir_top[OF al2 kx, where p = any_answer]
  let ?s3 = "snd (FreeDir d s2)"
  have "RemovePgTempFilesInDir tmp s = Some (Inr (), ?s3)"
    using a lp d by (simp add: RemovePgTempFilesInDir_def)
  moreover have "ran_script s (dir_script tmp c) ?s3"
    using ran_trans[OF r1 ran_trans[OF r2 conjunct1[OF fd]]] Listing by simp
  moreover have "sweep_frame s ?s3"
    using fd f2 fr r2 k1 conjunct1[OF fd] by (simp add: sweep_frame_def ran_script_def)
  ultimately show ?thesis by blast
qed

lemma base_local: "IsLocalPath ''base''"
  by (simp add: IsLocalPath_def strncmp_eq_def local_prefix_def fsys_protocol_sep_def)

lemma db_loop_runs:
  assumes d: "dbd \<noteq> 0" and nf: "nfile s = 0"
    and h1: "numAllocatedDescs s < MAX_ALLOCATED_DESCS"
    and h2: "numAllocatedDescs s < max_safe_fds s - 1"
    and ok: "list_all db_ok tree"
    and ans: "answers_from (kernel s) (length (trace s))
           (map snd (concat (map (db_script dbd) tree) @ [(SysReaddir dbd, end_of_dir)]))"
  shows "\<exists>s'. RemovePgTempFiles_loop dbd s = Some (Inr (), s')
            \<and> ran_script s (concat (map (db_script dbd) tree) @ [(SysReaddir dbd, end_of_dir)]) s'
            \<and> sweep_frame s s'"
  using nf h1 h2 ok ans
proof (induction tree arbitrary: s)
  case Nil
  then have "end_of_dir (kernel s (length (trace s)))" by simp
  from ReadDir_end[OF base_local d this, where p = end_of_dir] show ?case
    by (subst RemovePgTempFiles_loop.simps) auto
next
  case (Cons e tree)
  obtain n c where e: "e = (n, c)" by (cases e)
  let ?rest = "concat (map (db_script dbd) tree) @ [(SysReaddir dbd, end_of_dir)]"
  from Cons.prems(5) have g: "gives_name n (kernel s (length (trace s)))"
    by (simp add: db_script_def e)
  from ReadDir_name[OF base_local d g, where p = "gives_name n"] obtain s1 where
    rd: "ReadDir dbd ''base'' s = (Inr (Some n), s1)"
    and r1: "ran_script s [(SysReaddir dbd, gives_name n)] s1"
    and f1: "sweep_frame s s1" by blast
  have l1: "length (trace s1) = Suc (length (trace s))" using ran_length[OF r1] by simp
  have k1: "kernel s1 = kernel s" using r1 by (simp add: ran_script_def)
  have pre1: "nfile s1 = 0" "numAllocatedDescs s1 < MAX_ALLOCATED_DESCS"
    "numAllocatedDescs s1 < max_safe_fds s1 - 1"
    using f1 Cons.prems(1-3) by (simp_all add: sweep_frame_def numAllocatedDescs_def)
  from Cons.prems(4) have okt: "list_all db_ok tree" by simp
  show ?case
  proof (cases "dot_entry n")
    case True
    with Cons.prems(5) have "answers_from (kernel s1) (length (trace s1)) (map snd ?rest)"
      by (simp add: l1 k1 e db_script_def [of dbd "(n, c)"])
    from Cons.IH[OF pre1 okt this] obtain s' where
      a: "RemovePgTempFiles_loop dbd s1 = Some (Inr (), s')" and b: "ran_script s1 ?rest s'"
      and cc: "sweep_frame s1 s'" by blast
    have "RemovePgTempFiles_loop dbd s = Some (Inr (), s')"
      using True rd a by (subst RemovePgTempFiles_loop.simps) (simp add: dot_entry_def)
    moreover have "ran_script s (concat (map (db_script dbd) (e # tree)) @ [(SysReaddir dbd, end_of_dir)]) s'"
      using ran_trans[OF r1 b] True by (simp add: e db_script_def [of dbd "(n, c)"])
    ultimately show ?thesis using sweep_frame_trans[OF f1 cc] by blast
  next
    case False
    from Cons.prems(4) False have loc: "IsLocalPath (temp_path n)"
      and okc: "case c of Unopenable e \<Rightarrow> e \<noteq> ENONE | Listing d fs \<Rightarrow> d \<noteq> 0"
      by (cases c; simp add: e)+
    from Cons.prems(5) False
    have ad: "answers_from (kernel s1) (length (trace s1)) (map snd (dir_script (temp_path n) c))"
      and ar: "answers_from (kernel s) (Suc (length (trace s)) + length (dir_script (temp_path n) c))
                 (map snd ?rest)"
      by (simp_all add: l1 k1 e db_script_def [of dbd "(n, c)"] answers_from_append)
    from dir_runs[OF loc pre1(1) okc pre1(2,3) ad] obtain s2 where
      dr: "RemovePgTempFilesInDir (temp_path n) s1 = Some (Inr (), s2)"
      and r2: "ran_script s1 (dir_script (temp_path n) c) s2" and f2: "sweep_frame s1 s2" by blast
    have l2: "length (trace s2) = Suc (length (trace s)) + length (dir_script (temp_path n) c)"
      using ran_length[OF r2] l1 by simp
    have k2: "kernel s2 = kernel s" using r2 k1 by (simp add: ran_script_def)
    have pre2: "nfile s2 = 0" "numAllocatedDescs s2 < MAX_ALLOCATED_DESCS"
      "numAllocatedDescs s2 < max_safe_fds s2 - 1"
      using f2 pre1 by (simp_all add: sweep_frame_def numAllocatedDescs_def)
    from ar have "answers_from (kernel s2) (length (trace s2)) (map snd ?rest)"
      by (simp add: l2 k2)
    from Cons.IH[OF pre2 okt this] obtain s' where
      a: "RemovePgTempFiles_loop dbd s2 = Some (Inr (), s')" and b: "ran_script s2 ?rest s'"
      and cc: "sweep_frame s2 s'" by blast
    have "RemovePgTempFiles_loop dbd s = Some (Inr (), s')"
      using False rd a dr
      by (subst RemovePgTempFiles_loop.simps) (simp add: dot_entry_def temp_path_def)
    moreover have "ran_script s (concat (map (db_script dbd) (e # tree)) @ [(SysReaddir dbd, end_of_dir)]) s'"
      using ran_trans[OF r1 ran_trans[OF r2 b]] False by (simp add: e db_script_def [of dbd "(n, c)"])
    ultimately show ?thesis using sweep_frame_trans[OF f1 sweep_frame_trans[OF f2 cc]] by blast
  qed
qed

lemma unlinked_append: "unlinked (xs @ ys) = unlinked xs @ unlinked ys"
  by (induction xs rule: unlinked.induct) simp_all

lemma unlinked_files:
  "unlinked (map fst (concat (map (file_script d tmp) fs))) =
     map (path_in tmp) (filter (\<lambda>f. \<not> dot_entry f \<and> prefix PG_TEMP_FILE_PREFIX f) fs)"
  by (induction fs) (simp_all add: file_script_def unlinked_append)

lemma unlinked_dir:
  "unlinked (map fst (db_script dbd e)) = temp_files e"
proof (cases e)
  case (Pair n c)
  then show ?thesis
    by (cases c) (simp_all add: db_script_def unlinked_append unlinked_files)
qed

lemma unlinked_sweep:
  "unlinked (map fst (sweep_script dbd tree)) = concat (map temp_files tree)"
proof -
  have "unlinked (map fst (concat (map (db_script dbd) tree))) = concat (map temp_files tree)"
    by (induction tree) (simp_all add: unlinked_append unlinked_dir)
  then show ?thesis by (simp add: sweep_script_def unlinked_append)
qed

lemma ran_calls: "ran_script s sc s' \<Longrightarrow> calls_since s s' = map fst sc"
  unfolding ran_script_def calls_since_def
  by (metis append_eq_conv_conj drop_map length_map)

text \<open>
  An example: the entry \<^verbatim>\<open>.\<close>, a database whose directory holds a temporary file and a
  stranger, one whose directory is absent, one whose directory cannot be opened for lack of
  descriptors, and one more with a temporary file whose \<^verbatim>\<open>unlink\<close> fails.
\<close>

definition sweep_tree :: "(string \<times> dir_content) list" where
  "sweep_tree =
     [(''.'', Unopenable ENONE),
      (''1'', Listing 8 [''.'', ''..'', ''pgsql_tmp_foo'', ''README'']),
      (''2'', Unopenable ENOENT),
      (''3'', Unopenable EMFILE),
      (''4'', Listing 9 [''pgsql_tmp9.1''])]"

definition name_answer :: "string \<Rightarrow> sysres" where
  "name_answer n = \<lparr>rv = 1, rerrno = ENONE, rstrs = [n]\<rparr>"

definition failure :: "errno_val \<Rightarrow> sysres" where
  "failure e = \<lparr>rv = 0, rerrno = e, rstrs = []\<rparr>"

definition sweep_answers :: "sysres list" where
  "sweep_answers =
     [answer 7, answer 1,
      name_answer ''.'',
      name_answer ''1'', answer 8, answer 1,
        name_answer ''.'', name_answer ''..'', name_answer ''pgsql_tmp_foo'', answer 0,
        name_answer ''README'', answer 0, answer 0, answer 0,
      name_answer ''2'', failure ENOENT,
      name_answer ''3'', failure EMFILE, answer 0, answer 0,
      name_answer ''4'', answer 9, answer 1,
        name_answer ''pgsql_tmp9.1'', failure EIO, answer 0, answer 0,
      answer 0, answer 0]"

definition sweep_state :: state where
  "sweep_state = boot (\<lambda>n. if n < length sweep_answers then sweep_answers ! n else answer 0)"

text \<open>
  Claim C9. Started with no VFD physically open and room for two entries in the registry,
  on an environment that opens \<^verbatim>\<open>base\<close>, lists there the names of \<open>tree\<close> and answers for
  each per-database directory as \<open>tree\<close> says, \<^verbatim>\<open>RemovePgTempFiles\<close> returns normally and
  has made exactly the calls of \<open>sweep_script\<close>: every name other than \<^verbatim>\<open>.\<close> and \<^verbatim>\<open>..\<close>
  has its \<^verbatim>\<open>pgsql_tmp\<close> directory visited; there every entry other than \<^verbatim>\<open>.\<close> and \<^verbatim>\<open>..\<close>
  is unlinked when its name begins with \<^verbatim>\<open>PG_TEMP_FILE_PREFIX\<close> and logged otherwise, so
  the paths handed to \<^verbatim>\<open>unlink\<close> are exactly the \<open>temp_files\<close>; a directory that cannot be
  opened costs a log line (none when it is absent) and the sweep goes on with the next
  name. The registry and the VFD table are as before.
\<close>

theorem C9_RemovePgTempFiles:
  assumes "dbd \<noteq> 0" and "nfile s = 0"
    and "numAllocatedDescs s + 1 < MAX_ALLOCATED_DESCS"
    and "numAllocatedDescs s + 1 < max_safe_fds s - 1"
    and "list_all db_ok tree"
    and "answers_from (kernel s) (length (trace s)) (map snd (sweep_script dbd tree))"
  shows "\<exists>s'. RemovePgTempFiles s = Some (Inr (), s')
            \<and> calls_since s s' = map fst (sweep_script dbd tree)
            \<and> unlinked (calls_since s s') = concat (map temp_files tree)
            \<and> sweep_frame s s'"
proof -
  let ?body = "concat (map (db_script dbd) tree) @ [(SysReaddir dbd, end_of_dir)]"
  have h1: "numAllocatedDescs s < MAX_ALLOCATED_DESCS" "numAllocatedDescs s < max_safe_fds s - 1"
    using assms(3,4) by simp_all
  from assms(6) have o: "opened dbd (kernel s (length (trace s)))"
    and rest: "answers_from (kernel s) (Suc (Suc (length (trace s)))) (map snd ?body)"
    by (simp_all add: sweep_script_def answers_from_append)
  from AllocateDir_opens[OF base_local assms(1) h1 o, where p = "opened dbd" and q = any_answer]
  obtain s1 x where
    a: "AllocateDir ''base'' s = (Inr dbd, s1)"
    and r1: "ran_script s [(SysOpendir ''base'', opened dbd), (GetCurrentSubTransactionId, any_answer)] s1"
    and al: "allocatedDescs s1 = allocatedDescs s @ [x]" and kx: "kind x = AllocateDescDir" "desc x = dbd"
    and fr: "VfdCache s1 = VfdCache s" "nfile s1 = nfile s" "max_safe_fds s1 = max_safe_fds s"
    by blast
  have k1: "kernel s1 = kernel s" using r1 by (simp add: ran_script_def)
  have l1: "length (trace s1) = Suc (Suc (length (trace s)))" using ran_length[OF r1] by simp
  have pre: "nfile s1 = 0" "numAllocatedDescs s1 < MAX_ALLOCATED_DESCS"
    "numAllocatedDescs s1 < max_safe_fds s1 - 1"
    using assms(2-4) al fr by (simp_all add: numAllocatedDescs_def)
  from rest have "answers_from (kernel s1) (length (trace s1)) (map snd ?body)"
    by (simp add: k1 l1)
  from db_loop_runs[OF assms(1) pre assms(5) this] obtain s2 where
    lp: "RemovePgTempFiles_loop dbd s1 = Some (Inr (), s2)"
    and r2: "ran_script s1 ?body s2" and f2: "sweep_frame s1 s2" by blast
  have al2: "allocatedDescs s2 = allocatedDescs s @ [x]"
    using f2 al by (simp add: sweep_frame_def)
  note fd = FreeDir_top[OF al2 kx, where p = any_answer]
  let ?s3 = "snd (FreeDir dbd s2)"
  have run: "RemovePgTempFiles s = Some (Inr (), ?s3)"
    using a lp by (simp add: RemovePgTempFiles_def)
  have "ran_script s (sweep_script dbd tree) ?s3"
    using ran_trans[OF r1 ran_trans[OF r2 conjunct1[OF fd]]] by (simp add: sweep_script_def)
  then have calls: "calls_since s ?s3 = map fst (sweep_script dbd tree)" by (rule ran_calls)
  have "sweep_frame s ?s3"
    using fd f2 fr r2 k1 conjunct1[OF fd] by (simp add: sweep_frame_def ran_script_def)
  then show ?thesis using run calls unlinked_sweep[of dbd tree] by simp
qed

text \<open>
  The example sweep meets the hypotheses; two files are removed.
\<close>

theorem C9_RemovePgTempFiles_witness:
  "\<exists>s'. RemovePgTempFiles sweep_state = Some (Inr (), s')
       \<and> unlinked (calls_since sweep_state s') =
           [''base/1/pgsql_tmp/pgsql_tmp_foo'', ''base/4/pgsql_tmp/pgsql_tmp9.1'']"
proof -
  have ok: "list_all db_ok sweep_tree"
    by (simp add: sweep_tree_def dot_entry_def temp_path_def snprintf_def MAXPGPATH_def
        PG_TEMP_FILES_DIR_def IsLocalPath_def strncmp_eq_def local_prefix_def
        fsys_protocol_sep_def)
  have ans: "answers_from (kernel sweep_state) (length (trace sweep_state))
               (map snd (sweep_script 7 sweep_tree))"
    by (simp add: sweep_state_def boot_def sweep_answers_def sweep_script_def sweep_tree_def
        db_script_def file_script_def dot_entry_def PG_TEMP_FILE_PREFIX_def
        opened_def any_answer_def gives_name_def end_of_dir_def open_fails_def
        answer_def name_answer_def failure_def d_name_def)
  have files: "concat (map temp_files sweep_tree) =
      [''base/1/pgsql_tmp/pgsql_tmp_foo'', ''base/4/pgsql_tmp/pgsql_tmp9.1'']"
    by (simp add: sweep_tree_def dot_entry_def temp_path_def path_in_def snprintf_def
        MAXPGPATH_def PG_TEMP_FILES_DIR_def PG_TEMP_FILE_PREFIX_def)
  from C9_RemovePgTempFiles[of 7 sweep_state sweep_tree, OF _ _ _ _ ok ans] files
  show ?thesis
    by (auto simp: sweep_state_def boot_def numAllocatedDescs_def MAX_ALLOCATED_DESCS_def)
qed


subsection \<open>The end of a subtransaction: commit and abort\<close>








text \<open>
  An entry without its two ring links. Closing one entry relinks its neighbours in the LRU
  ring and nothing else of them.
\<close>

definition off_ring :: "vfd \<Rightarrow> vfd" where
  "off_ring v = v\<lparr>lruMoreRecently := 0, lruLessRecently := 0\<rparr>"


lemma off_ring_fields [simp]:
  "fd (off_ring v) = fd v" "fdstate (off_ring v) = fdstate v"
  "create_subid (off_ring v) = create_subid v" "nextFree (off_ring v) = nextFree v"
  "fileName (off_ring v) = fileName v" "hFS (off_ring v) = hFS v" "hFile (off_ring v) = hFile v"
  by (simp_all add: off_ring_def)


lemma off_ring_upd [simp]:
  "off_ring (v\<lparr>lruMoreRecently := a\<rparr>) = off_ring v"
  "off_ring (v\<lparr>lruLessRecently := a\<rparr>) = off_ring v"
  by (simp_all add: off_ring_def)


lemma off_ring_frame [simp]:
  "off_ring (vfdP (snd (syscall c s)) x) = off_ring (vfdP s x)"
  "off_ring (vfdP (elog l m s) x) = off_ring (vfdP s x)"
  by simp_all































end
